theory Spec2Isabelle
  imports Main "HOL-Library.AList"
begin

section \<open>Data model of \<^verbatim>\<open>vibe_surf/agents/vibe_surf_agent.py\<close>\<close>

text \<open>
  Python exceptions are values. \<open>Exception t\<close> is any instance of \<^verbatim>\<open>Exception\<close> whose
  \<^verbatim>\<open>str(e)\<close> is \<open>t\<close>; \<open>CancelledError\<close> is \<^verbatim>\<open>asyncio.CancelledError\<close>, which derives from
  \<^verbatim>\<open>BaseException\<close> and therefore passes through every \<^verbatim>\<open>except Exception\<close> clause.
  Text literals of the source are kept without their emoji prefixes.
\<close>

datatype exn = Exception string | CancelledError

fun str_exn :: "exn \<Rightarrow> string" where
  "str_exn (Exception t) = t"
| "str_exn CancelledError = ''''"

fun is_Exception :: "exn \<Rightarrow> bool" where
  "is_Exception (Exception t) = True"
| "is_Exception CancelledError = False"

text \<open>Decimal rendering of a number inside an f-string.\<close>

definition digit_char :: "nat \<Rightarrow> char" where
  "digit_char d = ''0123456789'' ! d"

fun str_nat :: "nat \<Rightarrow> string" where
  "str_nat n = (if n < 10 then [digit_char n] else str_nat (n div 10) @ [digit_char (n mod 10)])"

declare str_nat.simps [simp del]

text \<open>
  A task descriptor as the dispatch code inspects it: a two-element list
  \<^verbatim>\<open>[target_id, task_description]\<close>, a dict read through \<^verbatim>\<open>.get('description')\<close> and
  \<^verbatim>\<open>.get('tab_id')\<close>, or anything else, here a plain string, taken through \<^verbatim>\<open>str(task)\<close>.
\<close>

datatype task = TaskList "string option" string
  | TaskDict "string option" "string option"
  | TaskStr string

text \<open>The three-way \<^verbatim>\<open>isinstance\<close> chain that every dispatch loop repeats.\<close>

fun task_description :: "task \<Rightarrow> string" where
  "task_description (TaskList target d) = d"
| "task_description (TaskDict d tab) = (case d of None \<Rightarrow> ''Unknown task'' | Some x \<Rightarrow> x)"
| "task_description (TaskStr t) = t"

fun target_id :: "task \<Rightarrow> string option" where
  "target_id (TaskList target d) = target"
| "target_id (TaskDict d tab) = tab"
| "target_id (TaskStr t) = None"

fun is_list :: "task \<Rightarrow> bool" where
  "is_list (TaskList target d) = True"
| "is_list (TaskDict d tab) = False"
| "is_list (TaskStr t) = False"

record BrowserTaskResult =
  agent_id :: string
  task :: string
  success :: bool
  result :: "string option"
  error :: "string option"

text \<open>
  \<^verbatim>\<open>BrowserTaskResult\<close> is a pydantic model whose field \<^verbatim>\<open>task\<close> is declared \<^verbatim>\<open>str\<close>:
  constructing it validates the arguments, and a list or a dict given for \<^verbatim>\<open>task\<close> is
  rejected with a validation error. The text of that error is abbreviated here.
\<close>

definition validation_error :: "string \<Rightarrow> string \<Rightarrow> exn" where
  "validation_error model fld = Exception (''1 validation error for '' @ model @ '' '' @ fld)"

fun mk_BrowserTaskResult ::
  "string \<Rightarrow> task \<Rightarrow> bool \<Rightarrow> string option \<Rightarrow> string option \<Rightarrow> exn + BrowserTaskResult" where
  "mk_BrowserTaskResult aid (TaskStr t) ok res err =
     Inr \<lparr>agent_id = aid, task = t, success = ok, result = res, error = err\<rparr>"
| "mk_BrowserTaskResult aid (TaskList target d) ok res err =
     Inl (validation_error ''BrowserTaskResult'' ''task'')"
| "mk_BrowserTaskResult aid (TaskDict d tab) ok res err =
     Inl (validation_error ''BrowserTaskResult'' ''task'')"

datatype message = SystemMessage string | UserMessage string | AssistantMessage string

record activity_entry =
  agent_name :: string
  agent_status :: string
  agent_msg :: string

text \<open>
  One action of the planner's output, by the name its \<^verbatim>\<open>model_dump\<close> leads with: the
  three routing actions with the parameters the node reads (\<^verbatim>\<open>tasks\<close>; \<^verbatim>\<open>response\<close> and
  \<^verbatim>\<open>suggestion_follow_tasks\<close>), and \<open>Other name\<close> for every other action.
\<close>

datatype action = ExecuteBrowserUseAgentTasks "task list option"
  | ExecuteReportWriterAgent
  | TaskDone "string option" "string list"
  | Other string

text \<open>
  The session state. The last three fields are attributes that the workflow code reads
  from the state object (\<^verbatim>\<open>state.task_id\<close>, \<^verbatim>\<open>state.message_history\<close>,
  \<^verbatim>\<open>state.activity_logs\<close>) although the dataclass does not declare them; they are taken
  as present. \<open>vibesurf_agent\<close> records whether the reference to the controller is set
  and has a \<^verbatim>\<open>_running_agents\<close> attribute.
\<close>

record VibeSurfState =
  original_task :: string
  upload_files :: "string list"
  session_id :: string
  current_step :: string
  is_complete :: bool
  current_action :: "string option"
  action_params :: "action option"
  browser_tasks :: "task list"
  browser_results :: "BrowserTaskResult list"
  generated_report_path :: "string option"
  final_response :: "string option"
  vibesurf_agent :: bool
  paused :: bool
  stopped :: bool
  should_pause :: bool
  should_stop :: bool
  task_id :: string
  message_history :: "message list"
  activity_logs :: "activity_entry list"

definition log_agent_activity ::
  "VibeSurfState \<Rightarrow> string \<Rightarrow> string \<Rightarrow> string \<Rightarrow> VibeSurfState" where
  "log_agent_activity state name st msg =
     state\<lparr>activity_logs := activity_logs state @
       [\<lparr>agent_name = name, agent_status = st, agent_msg = msg\<rparr>]\<rparr>"

section \<open>The control-aware node wrapper\<close>

text \<open>
  The flag writes that \<^verbatim>\<open>stop\<close>, \<^verbatim>\<open>pause\<close> and \<^verbatim>\<open>resume\<close> perform on the current state.
  The workflow runs on one event loop, so another coroutine can change the flags only
  while the wrapper is suspended: during \<^verbatim>\<open>await asyncio.sleep(0.5)\<close>. A schedule gives,
  for each successive sleep, the control operations that land during it.
\<close>

datatype ctl = CtlStop | CtlPause | CtlResume

fun apply_ctl :: "VibeSurfState \<Rightarrow> ctl \<Rightarrow> VibeSurfState" where
  "apply_ctl s CtlStop = s\<lparr>should_stop := True, stopped := True\<rparr>"
| "apply_ctl s CtlPause = s\<lparr>should_pause := True\<rparr>"
| "apply_ctl s CtlResume = s\<lparr>paused := False, should_pause := False\<rparr>"

definition asyncio_sleep :: "VibeSurfState \<Rightarrow> ctl list \<Rightarrow> VibeSurfState" where
  "asyncio_sleep s ops = foldl apply_ctl s ops"

text \<open>The first statement of the loop body: \<^verbatim>\<open>should_pause\<close> becomes \<^verbatim>\<open>paused\<close>.\<close>

definition mark_paused :: "VibeSurfState \<Rightarrow> VibeSurfState" where
  "mark_paused s =
     (if \<not> paused s \<and> should_pause s then s\<lparr>paused := True, should_pause := False\<rparr> else s)"

text \<open>
  The \<^verbatim>\<open>while state.paused or state.should_pause\<close> loop. The number counts the sleeps
  performed so far. \<open>Blocked\<close>: the schedule is used up and the loop is still polling.
\<close>

datatype wait_outcome = Resumed VibeSurfState nat
  | StoppedWhilePaused VibeSurfState nat
  | Blocked VibeSurfState nat

fun pause_wait :: "VibeSurfState \<Rightarrow> ctl list list \<Rightarrow> nat \<Rightarrow> wait_outcome" where
  "pause_wait s [] n =
     (if paused s \<or> should_pause s then Blocked (mark_paused s) n else Resumed s n)"
| "pause_wait s (ops # sched) n =
     (if paused s \<or> should_pause s then
        (let s2 = asyncio_sleep (mark_paused s) ops in
         if stopped s2 \<or> should_stop s2
         then StoppedWhilePaused (s2\<lparr>stopped := True, should_stop := False\<rparr>) (Suc n)
         else pause_wait s2 sched (Suc n))
      else Resumed s n)"

text \<open>
  \<open>Skipped\<close>: the wrapper returned the state without calling the node.
  \<open>Executed\<close>: it returned (or re-raised) what the node produced.
  \<open>Waiting\<close>: it is still inside the pause loop when the schedule ends.
\<close>

datatype 'r gate_outcome = Skipped VibeSurfState nat
  | Executed 'r nat
  | Waiting VibeSurfState nat

definition control_aware_node ::
  "(VibeSurfState \<Rightarrow> 'r) \<Rightarrow> VibeSurfState \<Rightarrow> ctl list list \<Rightarrow> 'r gate_outcome" where
  "control_aware_node node_func state sched =
     (if stopped state then Skipped state 0
      else case pause_wait state sched 0 of
          Blocked s n \<Rightarrow> Waiting s n
        | StoppedWhilePaused s n \<Rightarrow> Skipped s n
        | Resumed s n \<Rightarrow>
            if should_stop s then Skipped (s\<lparr>stopped := True, should_stop := False\<rparr>) n
            else Executed (node_func s) n)"

text \<open>
  The state that \<^verbatim>\<open>run\<close> builds: the dataclass defaults, with the task, the uploaded
  files, the session id and the controller reference filled in.
\<close>

definition initial_state :: "string \<Rightarrow> string list \<Rightarrow> string \<Rightarrow> string \<Rightarrow> VibeSurfState" where
  "initial_state tsk files sid tid =
     \<lparr>original_task = tsk, upload_files = files, session_id = sid,
      current_step = ''vibesurf_agent'', is_complete = False, current_action = None,
      action_params = None,
      browser_tasks = [], browser_results = [], generated_report_path = None,
      final_response = None, vibesurf_agent = True,
      paused = False, stopped = False, should_pause = False, should_stop = False,
      task_id = tid, message_history = [], activity_logs = []\<rparr>"

section \<open>Workers and the controller object\<close>

text \<open>
  A resource handle is the shared main browser session or the session that
  \<^verbatim>\<open>register_agent\<close> returns for one agent id.
\<close>

datatype session = MainSession | AgentSession string

text \<open>
  What a worker does when the orchestrator touches it. A control hook may be missing
  (\<^verbatim>\<open>hasattr\<close> is false), return, or raise an \<^verbatim>\<open>Exception\<close> with a text.
  \<open>state_view\<close> is what \<^verbatim>\<open>get_status\<close> finds behind \<^verbatim>\<open>agent.state\<close>: no such
  attribute, a \<^verbatim>\<open>last_result\<close> that is truthy or not, or an access that raises.
\<close>

datatype hook = NoHook | HookOk | HookRaises string

datatype state_view = NoState | LastResult bool | StateRaises

record AgentHistory =
  is_successful :: bool
  final_result :: "string option"
  has_errors :: bool
  errors :: string

datatype run_outcome = RunRaises exn | RunReturns AgentHistory

record behaviour =
  on_pause :: hook
  on_resume :: hook
  on_stop :: hook
  agent_state :: state_view
  on_run :: run_outcome

record BrowserUseAgent =
  bu_task :: string
  browser_session :: session
  bu_task_id :: string
  acts :: behaviour

text \<open>
  The controller \<^verbatim>\<open>VibeSurfAgent\<close>: \<^verbatim>\<open>_current_state\<close>, the registry \<^verbatim>\<open>_running_agents\<close>
  (a dict, kept in insertion order), its own \<^verbatim>\<open>message_history\<close>, and whether
  \<^verbatim>\<open>_execution_task\<close> exists and is not done.
\<close>

record VibeSurfAgent =
  current_state :: "VibeSurfState option"
  running_agents :: "(string \<times> BrowserUseAgent) list"
  agent_message_history :: "message list"
  execution_task :: bool

record ControlResult =
  ctl_success :: bool
  ctl_message :: string
  ctl_details :: "(string \<times> string) list"

text \<open>\<^verbatim>\<open>reason or default\<close>: \<^verbatim>\<open>None\<close> and the empty string are falsy.\<close>

definition or_default :: "string option \<Rightarrow> string \<Rightarrow> string" where
  "or_default reason d = (case reason of None \<Rightarrow> d | Some r \<Rightarrow> if r = [] then d else r)"

text \<open>
  \<^verbatim>\<open>pause_agent\<close> and \<^verbatim>\<open>resume_agent\<close>. The second component lists the
  \<^verbatim>\<open>logger.warning\<close> lines, the third the controller after the call, to which
  neither method writes.
\<close>

definition pause_agent ::
  "VibeSurfAgent \<Rightarrow> string \<Rightarrow> string option \<Rightarrow> ControlResult \<times> string list \<times> VibeSurfAgent" where
  "pause_agent self aid reason =
     (let reason = or_default reason (''Manual pause requested for agent '' @ aid);
          done = \<lparr>ctl_success = True,
                  ctl_message = ''Agent '' @ aid @ '' paused successfully: '' @ reason,
                  ctl_details = [(''agent_id'', aid), (''reason'', reason)]\<rparr>
      in case map_of (running_agents self) aid of
           Some agent \<Rightarrow>
             (case on_pause (acts agent) of
                HookRaises e \<Rightarrow>
                  (\<lparr>ctl_success = False,
                    ctl_message = ''Failed to pause agent '' @ aid @ '': '' @ e,
                    ctl_details = [(''agent_id'', aid), (''error'', e)]\<rparr>, [], self)
              | HookOk \<Rightarrow> (done, [], self)
              | NoHook \<Rightarrow> (done, [], self))
         | None \<Rightarrow> (done, [''Agent '' @ aid @ '' not found''], self))"

definition resume_agent ::
  "VibeSurfAgent \<Rightarrow> string \<Rightarrow> string option \<Rightarrow> ControlResult \<times> string list \<times> VibeSurfAgent" where
  "resume_agent self aid reason =
     (let reason = or_default reason (''Manual resume requested for agent '' @ aid);
          done = \<lparr>ctl_success = True,
                  ctl_message = ''Agent '' @ aid @ '' resumed successfully: '' @ reason,
                  ctl_details = [(''agent_id'', aid), (''reason'', reason)]\<rparr>
      in case map_of (running_agents self) aid of
           Some agent \<Rightarrow>
             (case on_resume (acts agent) of
                HookRaises e \<Rightarrow>
                  (\<lparr>ctl_success = False,
                    ctl_message = ''Failed to resume agent '' @ aid @ '': '' @ e,
                    ctl_details = [(''agent_id'', aid), (''error'', e)]\<rparr>, [], self)
              | HookOk \<Rightarrow> (done, [], self)
              | NoHook \<Rightarrow> (done, [], self))
         | None \<Rightarrow> (done, [''Agent '' @ aid @ '' not found''], self))"

text \<open>
  \<^verbatim>\<open>stop\<close>, \<^verbatim>\<open>pause\<close> and \<^verbatim>\<open>resume\<close>. The loops \<^verbatim>\<open>_stop_all_agents\<close>,
  \<^verbatim>\<open>_pause_all_agents\<close> and \<^verbatim>\<open>_resume_all_agents\<close> swallow every hook exception and
  write nothing, and a timeout of the stop pass is only logged, so they leave no trace
  here. \<open>awaited\<close> is what awaiting the cancelled execution task raises when that is
  neither a cancellation nor a timeout: such an exception reaches the outer handler.
\<close>

definition stop :: "VibeSurfAgent \<Rightarrow> string option \<Rightarrow> string option \<Rightarrow> ControlResult \<times> VibeSurfAgent" where
  "stop self reason awaited =
     (let reason = or_default reason ''Manual stop requested'';
          self = self\<lparr>agent_message_history := agent_message_history self @
                   [UserMessage (''Stopping agent execution: '' @ reason)]\<rparr>;
          self = self\<lparr>current_state := map_option (\<lambda>s. apply_ctl s CtlStop) (current_state self)\<rparr>
      in case (if execution_task self then awaited else None) of
           Some e \<Rightarrow>
             (\<lparr>ctl_success = False, ctl_message = ''Failed to stop VibeSurf: '' @ e,
               ctl_details = [(''error'', e)]\<rparr>, self)
         | None \<Rightarrow>
             (\<lparr>ctl_success = True, ctl_message = ''VibeSurf stopped successfully: '' @ reason,
               ctl_details = [(''reason'', reason)]\<rparr>, self))"

definition pause :: "VibeSurfAgent \<Rightarrow> string option \<Rightarrow> ControlResult \<times> VibeSurfAgent" where
  "pause self reason =
     (let reason = or_default reason ''Manual pause requested'';
          self = self\<lparr>agent_message_history := agent_message_history self @
                   [UserMessage (''Pausing agent execution: '' @ reason)]\<rparr>;
          self = self\<lparr>current_state := map_option (\<lambda>s. apply_ctl s CtlPause) (current_state self)\<rparr>
      in (\<lparr>ctl_success = True, ctl_message = ''VibeSurf paused successfully: '' @ reason,
           ctl_details = [(''reason'', reason)]\<rparr>, self))"

definition resume :: "VibeSurfAgent \<Rightarrow> string option \<Rightarrow> ControlResult \<times> VibeSurfAgent" where
  "resume self reason =
     (let reason = or_default reason ''Manual resume requested'';
          self = self\<lparr>agent_message_history := agent_message_history self @
                   [UserMessage (''Resuming agent execution: '' @ reason)]\<rparr>;
          self = self\<lparr>current_state := map_option (\<lambda>s. apply_ctl s CtlResume) (current_state self)\<rparr>
      in (\<lparr>ctl_success = True, ctl_message = ''VibeSurf resumed successfully: '' @ reason,
           ctl_details = [(''reason'', reason)]\<rparr>, self))"

section \<open>The status reporter\<close>

text \<open>
  \<^verbatim>\<open>AgentStatus.status\<close> and \<^verbatim>\<open>VibeSurfStatus.overall_status\<close> are declared
  \<^verbatim>\<open>Literal["running", "paused", "stopped", "idle", "error"]\<close>; both classes are pydantic
  models, so a constructor call with any other string raises a validation error.
  The timestamp fields are left out.
\<close>

definition status_literal :: "string list" where
  "status_literal = [''running'', ''paused'', ''stopped'', ''idle'', ''error'']"

record AgentStatus =
  as_agent_id :: string
  status :: string
  as_current_action :: "string option"
  error_message :: "string option"
  pause_reason :: "string option"

datatype pyval = PStr string | PBool bool | PInt nat

record VibeSurfStatus =
  overall_status :: string
  agent_statuses :: "(string \<times> AgentStatus) list"
  progress :: "(string \<times> pyval) list"
  active_step :: "string option"

definition mk_AgentStatus ::
  "string \<Rightarrow> string \<Rightarrow> string option \<Rightarrow> string option \<Rightarrow> string option \<Rightarrow> exn + AgentStatus" where
  "mk_AgentStatus aid st act err pr =
     (if st \<in> set status_literal
      then Inr \<lparr>as_agent_id = aid, status = st, as_current_action = act,
                error_message = err, pause_reason = pr\<rparr>
      else Inl (validation_error ''AgentStatus'' ''status''))"

definition mk_VibeSurfStatus ::
  "string \<Rightarrow> (string \<times> AgentStatus) list \<Rightarrow> (string \<times> pyval) list \<Rightarrow> string option
     \<Rightarrow> exn + VibeSurfStatus" where
  "mk_VibeSurfStatus st ags pr step =
     (if st \<in> set status_literal
      then Inr \<lparr>overall_status = st, agent_statuses = ags, progress = pr, active_step = step\<rparr>
      else Inl (validation_error ''VibeSurfStatus'' ''overall_status''))"

text \<open>The \<^verbatim>\<open>if/elif\<close> chain at the head of \<^verbatim>\<open>get_status\<close>.\<close>

definition overall_of :: "VibeSurfState option \<Rightarrow> string" where
  "overall_of cs =
     (case cs of
        None \<Rightarrow> ''idle''
      | Some s \<Rightarrow>
          if stopped s then ''stopped''
          else if paused s \<or> should_pause s then ''paused''
          else if is_complete s then ''completed''
          else ''running'')"

definition agent_status_of :: "VibeSurfState option \<Rightarrow> string" where
  "agent_status_of cs =
     (case cs of
        None \<Rightarrow> ''running''
      | Some s \<Rightarrow> if stopped s then ''stopped'' else if paused s then ''paused'' else ''running'')"

definition current_action_of :: "BrowserUseAgent \<Rightarrow> string option" where
  "current_action_of agent =
     (case agent_state (acts agent) of
        NoState \<Rightarrow> None
      | LastResult b \<Rightarrow> Some (if b then ''Last action completed'' else ''Executing task'')
      | StateRaises \<Rightarrow> Some ''Unknown'')"

text \<open>The loop over \<^verbatim>\<open>self._running_agents.items()\<close>, filling the dict of statuses.\<close>

fun build_agent_statuses ::
  "VibeSurfState option \<Rightarrow> (string \<times> BrowserUseAgent) list \<Rightarrow> (string \<times> AgentStatus) list
     \<Rightarrow> exn + (string \<times> AgentStatus) list" where
  "build_agent_statuses cs [] acc = Inr acc"
| "build_agent_statuses cs ((aid, agent) # rest) acc =
     (case mk_AgentStatus aid (agent_status_of cs) (current_action_of agent) None None of
        Inl e \<Rightarrow> Inl e
      | Inr st \<Rightarrow> build_agent_statuses cs rest (AList.update aid st acc))"

definition progress_of :: "VibeSurfState option \<Rightarrow> (string \<times> pyval) list" where
  "progress_of cs =
     (case cs of
        None \<Rightarrow> []
      | Some s \<Rightarrow>
          [(''current_step'', PStr (current_step s)),
           (''is_complete'', PBool (is_complete s)),
           (''browser_tasks_count'', PInt (length (browser_tasks s))),
           (''browser_results_count'', PInt (length (browser_results s)))])"

text \<open>The body of the \<^verbatim>\<open>try\<close> block, then the whole method with its handler.\<close>

definition get_status_body :: "VibeSurfAgent \<Rightarrow> exn + VibeSurfStatus" where
  "get_status_body self =
     (case build_agent_statuses (current_state self) (running_agents self) [] of
        Inl e \<Rightarrow> Inl e
      | Inr ags \<Rightarrow>
          mk_VibeSurfStatus (overall_of (current_state self)) ags (progress_of (current_state self))
            (map_option current_step (current_state self)))"

definition get_status :: "VibeSurfAgent \<Rightarrow> exn + VibeSurfStatus" where
  "get_status self =
     (case get_status_body self of
        Inr v \<Rightarrow> Inr v
      | Inl e \<Rightarrow>
          if is_Exception e
          then mk_VibeSurfStatus ''error'' [] [(''error'', PStr (str_exn e))] None
          else Inl e)"

section \<open>The worker dispatcher\<close>

text \<open>
  The objects the dispatch code reaches through the state: the controller's registry
  (\<^verbatim>\<open>state.vibesurf_agent._running_agents\<close>) and the browser manager, of which the live
  agent sessions and the calls of \<^verbatim>\<open>unregister_agent\<close> are kept. \<open>started\<close> lists the
  workers whose \<^verbatim>\<open>run\<close> was called, in call order.
\<close>

record BrowserManager =
  sessions :: "(string \<times> string option) list"
  unregister_calls :: "string list"

record runtime =
  registry :: "(string \<times> BrowserUseAgent) list"
  browser_manager :: BrowserManager
  started :: "BrowserUseAgent list"

text \<open>
  What the external collaborators hand back: a browser tab, the result of an action,
  and the parsed completion of the planner (\<open>completion\<close> is its text as stored in the
  assistant message).
\<close>

record TabInfo =
  title :: string
  url :: string
  tab_target_id :: string

record ActionResult =
  extracted_content :: "string option"
  action_error :: "string option"

record AgentOutput =
  thinking :: "string option"
  actions :: "action list"
  completion :: string

text \<open>
  What the external collaborators answer. \<open>register_agent\<close>: the exception, if any, that
  \<^verbatim>\<open>browser_manager.register_agent(agent_id, target_id)\<close> raises. \<open>BrowserUseAgent_init\<close>:
  the constructor, keyed by the worker's task id, raises an exception with a text or
  yields a worker with its behaviour. \<open>get_or_create_cdp_session\<close>: the exception, if
  any, of the focus call of the single path. \<open>cancelled\<close>: the dispatcher is cancelled
  while it awaits the workers. \<open>get_tabs\<close> and \<open>get_activate_tab\<close>: the browser context.
  \<open>llm_ainvoke\<close>: the planner on a message history. \<open>tools_act\<close>: \<^verbatim>\<open>state.tools.act\<close> on
  an action, by its name. \<open>read_todo\<close>: the content of \<^verbatim>\<open>todo.md\<close>, or nothing when
  reading raises. \<open>generate_report\<close>: the report writer.
\<close>

record env =
  register_agent :: "string \<Rightarrow> string option \<Rightarrow> exn option"
  BrowserUseAgent_init :: "string \<Rightarrow> string + behaviour"
  get_or_create_cdp_session :: "string option \<Rightarrow> exn option"
  cancelled :: bool
  get_tabs :: "exn + TabInfo list"
  get_activate_tab :: "exn + TabInfo option"
  llm_ainvoke :: "message list \<Rightarrow> exn + AgentOutput"
  tools_act :: "string \<Rightarrow> exn + ActionResult"
  read_todo :: "string option"
  generate_report :: "exn + string"

definition nl :: string where
  "nl = [CHR 0x0A]"

text \<open>\<^verbatim>\<open>state.task_id[-4:]\<close>: the last four characters, or all of a shorter id.\<close>

definition task_id_suffix :: "VibeSurfState \<Rightarrow> string" where
  "task_id_suffix state = drop (length (task_id state) - 4) (task_id state)"

definition parallel_agent_id :: "VibeSurfState \<Rightarrow> nat \<Rightarrow> string" where
  "parallel_agent_id state i = ''agent-'' @ str_nat (i + 1) @ ''-'' @ task_id_suffix state"

definition parallel_agent_name :: "VibeSurfState \<Rightarrow> nat \<Rightarrow> string" where
  "parallel_agent_name state i =
     ''browser_use_agent-'' @ str_nat (i + 1) @ ''-'' @ task_id_suffix state"

text \<open>
  \<^verbatim>\<open>asyncio.gather\<close> without \<^verbatim>\<open>return_exceptions\<close>: the results in the order of the
  awaitables if none raises, otherwise an exception of a failing one (here the first
  in list order) while the others are left to finish.
\<close>

fun first_failure :: "(exn + 'a) list \<Rightarrow> exn option" where
  "first_failure [] = None"
| "first_failure (Inl e # xs) = Some e"
| "first_failure (Inr x # xs) = first_failure xs"

fun successes :: "(exn + 'a) list \<Rightarrow> 'a list" where
  "successes [] = []"
| "successes (Inl e # xs) = successes xs"
| "successes (Inr x # xs) = x # successes xs"

definition gather :: "(exn + 'a) list \<Rightarrow> exn + 'a list" where
  "gather outs = (case first_failure outs of Some e \<Rightarrow> Inl e | None \<Rightarrow> Inr (successes outs))"

text \<open>The first loop of \<^verbatim>\<open>execute_parallel_browser_tasks\<close> and the gather after it.\<close>

definition register_one ::
  "env \<Rightarrow> VibeSurfState \<Rightarrow> nat \<times> task \<Rightarrow> exn + (string \<times> string option)" where
  "register_one env state it =
     (case register_agent env (parallel_agent_id state (fst it)) (target_id (snd it)) of
        Some e \<Rightarrow> Inl e
      | None \<Rightarrow> Inr (parallel_agent_id state (fst it), target_id (snd it)))"

definition register_all ::
  "env \<Rightarrow> runtime \<Rightarrow> VibeSurfState \<Rightarrow> (exn + session list) \<times> runtime" where
  "register_all env rt state =
     (let outs = map (register_one env state) (enumerate 0 (browser_tasks state));
          bm = browser_manager rt;
          rt = rt\<lparr>browser_manager := bm\<lparr>sessions := sessions bm @ successes outs\<rparr>\<rparr>
      in (case gather outs of
            Inl e \<Rightarrow> Inl e
          | Inr regs \<Rightarrow> Inr (map (\<lambda>r. AgentSession (fst r)) regs), rt))"

text \<open>
  The task text of a worker. With uploaded files the source appends their list, which
  it formats through \<^verbatim>\<open>format_upload_files_list\<close>, a name that the module neither defines
  nor imports: the call raises \<^verbatim>\<open>NameError\<close>, inside the \<^verbatim>\<open>try\<close> block and before the
  worker is constructed. Without uploaded files the task text is the description.
\<close>

definition repr_str :: "string \<Rightarrow> string" where
  "repr_str x = [CHR 0x27] @ x @ [CHR 0x27]"

definition name_error :: string where
  "name_error = ''name '' @ repr_str ''format_upload_files_list'' @ '' is not defined''"

definition parallel_bu_task :: "VibeSurfState \<Rightarrow> string \<Rightarrow> string + string" where
  "parallel_bu_task state d = (if upload_files state \<noteq> [] then Inl name_error else Inr d)"

text \<open>
  The statements of the creation \<^verbatim>\<open>try\<close> block up to \<^verbatim>\<open>agents.append\<close>: the task text,
  then the constructor. The text of the exception that leaves them, or the worker.
\<close>

definition new_parallel_agent ::
  "env \<Rightarrow> VibeSurfState \<Rightarrow> nat \<Rightarrow> task \<Rightarrow> session \<Rightarrow> string + BrowserUseAgent" where
  "new_parallel_agent env state i t sess =
     (case parallel_bu_task state (task_description t) of
        Inl e \<Rightarrow> Inl e
      | Inr bu \<Rightarrow>
          (case BrowserUseAgent_init env (task_id state @ ''-'' @ str_nat (i + 1)) of
             Inl e \<Rightarrow> Inl e
           | Inr b \<Rightarrow>
               Inr \<lparr>bu_task = bu, browser_session = sess,
                    bu_task_id = task_id state @ ''-'' @ str_nat (i + 1), acts = b\<rparr>))"

text \<open>The second loop: one worker per task, skipped when its creation raises.\<close>

fun create_agents ::
  "env \<Rightarrow> ((nat \<times> task) \<times> session) list \<Rightarrow> BrowserUseAgent list \<Rightarrow> runtime \<Rightarrow> VibeSurfState
     \<Rightarrow> BrowserUseAgent list \<times> runtime \<times> VibeSurfState" where
  "create_agents env [] agents rt state = (agents, rt, state)"
| "create_agents env (((i, t), sess) # rest) agents rt state =
     (let state = log_agent_activity state (parallel_agent_name state i) ''working''
                    (task_description t)
      in case new_parallel_agent env state i t sess of
           Inl e \<Rightarrow>
             create_agents env rest agents rt
               (log_agent_activity state (parallel_agent_name state i) ''error''
                  (''Failed to create agent: '' @ e))
         | Inr agent \<Rightarrow>
             create_agents env rest (agents @ [agent])
               (if vibesurf_agent state
                then rt\<lparr>registry := AList.update (parallel_agent_id state i) agent (registry rt)\<rparr>
                else rt)
               state)"

text \<open>
  The loop over \<^verbatim>\<open>enumerate(zip(agents, histories))\<close>, which reads the descriptor
  \<^verbatim>\<open>pending_tasks[i]\<close> at the position \<open>i\<close> of the worker in \<^verbatim>\<open>agents\<close>. With
  \<^verbatim>\<open>return_exceptions=True\<close> a cancelled worker comes back as a \<^verbatim>\<open>CancelledError\<close> value,
  which is no \<^verbatim>\<open>Exception\<close> and has no \<^verbatim>\<open>is_successful\<close>.
\<close>

definition result_text :: "AgentHistory \<Rightarrow> string" where
  "result_text h = (case final_result h of None \<Rightarrow> ''None'' | Some r \<Rightarrow> r)"

definition history_error :: "AgentHistory \<Rightarrow> string" where
  "history_error h = (if has_errors h \<and> \<not> is_successful h then errors h else [])"

fun process_histories ::
  "((nat \<times> task) \<times> BrowserUseAgent) list \<Rightarrow> BrowserTaskResult list \<Rightarrow> VibeSurfState
     \<Rightarrow> (exn + BrowserTaskResult list) \<times> VibeSurfState" where
  "process_histories [] results state = (Inr results, state)"
| "process_histories (((i, t), agent) # rest) results state =
     (case on_run (acts agent) of
        RunRaises e \<Rightarrow>
          if is_Exception e then
            (case mk_BrowserTaskResult (''agent-'' @ str_nat (i + 1)) t False None
                    (Some (str_exn e)) of
               Inl v \<Rightarrow> (Inl v, state)
             | Inr r \<Rightarrow>
                 process_histories rest (results @ [r])
                   (log_agent_activity state (parallel_agent_name state i) ''error''
                      (''Task failed: '' @ str_exn e)))
          else (Inl (Exception ''CancelledError object has no attribute is_successful''), state)
      | RunReturns h \<Rightarrow>
          (case mk_BrowserTaskResult (''agent-'' @ str_nat (i + 1)) t (is_successful h)
                  (final_result h) (Some (history_error h)) of
             Inl v \<Rightarrow> (Inl v, state)
           | Inr r \<Rightarrow>
               process_histories rest (results @ [r])
                 (if is_successful h
                  then log_agent_activity state (parallel_agent_name state i) ''result''
                         (''Task completed successfully: '' @ nl @ result_text h)
                  else log_agent_activity state (parallel_agent_name state i) ''error''
                         (''Task failed: ''
                            @ (if has_errors h then errors h else ''Unknown error'')))))"

text \<open>The \<^verbatim>\<open>finally\<close> block.\<close>

definition unregister_agent :: "BrowserManager \<Rightarrow> string \<Rightarrow> BrowserManager" where
  "unregister_agent bm aid =
     bm\<lparr>sessions := AList.delete aid (sessions bm),
        unregister_calls := unregister_calls bm @ [aid]\<rparr>"

fun cleanup :: "VibeSurfState \<Rightarrow> (nat \<times> task) list \<Rightarrow> runtime \<Rightarrow> runtime" where
  "cleanup state [] rt = rt"
| "cleanup state ((i, t) # rest) rt =
     (let rt = (if \<not> is_list t
                then rt\<lparr>browser_manager :=
                          unregister_agent (browser_manager rt) (parallel_agent_id state i)\<rparr>
                else rt);
          rt = (if vibesurf_agent state
                then rt\<lparr>registry := AList.delete (parallel_agent_id state i) (registry rt)\<rparr>
                else rt)
      in cleanup state rest rt)"

definition execute_parallel_browser_tasks ::
  "env \<Rightarrow> runtime \<Rightarrow> VibeSurfState
     \<Rightarrow> (exn + BrowserTaskResult list) \<times> runtime \<times> VibeSurfState" where
  "execute_parallel_browser_tasks env rt state =
     (let pending_tasks = enumerate 0 (browser_tasks state)
      in case register_all env rt state of
           (Inl e, rt) \<Rightarrow> (Inl e, rt, state)
         | (Inr agent_browser_sessions, rt) \<Rightarrow>
             (case create_agents env (zip pending_tasks agent_browser_sessions) [] rt state of
                (agents, rt, state) \<Rightarrow>
                  (let rt = rt\<lparr>started := started rt @ agents\<rparr>;
                       tried = (if cancelled env then (Inl CancelledError, state)
                                else process_histories (zip pending_tasks agents) [] state)
                   in (fst tried, cleanup (snd tried) pending_tasks rt, snd tried))))"

text \<open>
  The entry that the specification asks for at position \<open>i\<close> of the results of a parallel
  dispatch: the description of the i-th descriptor with the outcome of its own worker,
  failed with the text of the exception when the worker raised. It is stated here to be
  compared with what \<open>execute_parallel_browser_tasks\<close> returns.
\<close>

definition expected_entry :: "nat \<Rightarrow> task \<Rightarrow> run_outcome \<Rightarrow> BrowserTaskResult" where
  "expected_entry i t out =
     (case out of
        RunRaises e \<Rightarrow>
          \<lparr>agent_id = ''agent-'' @ str_nat (i + 1), task = task_description t, success = False,
           result = None, error = Some (str_exn e)\<rparr>
      | RunReturns h \<Rightarrow>
          \<lparr>agent_id = ''agent-'' @ str_nat (i + 1), task = task_description t,
           success = is_successful h, result = final_result h, error = Some (history_error h)\<rparr>)"

text \<open>The single path, \<^verbatim>\<open>execute_single_browser_tasks\<close>.\<close>

definition single_agent_id :: "VibeSurfState \<Rightarrow> nat \<Rightarrow> string" where
  "single_agent_id state i = ''agent-single-'' @ task_id_suffix state @ ''-'' @ str_nat i"

definition single_agent_name :: "VibeSurfState \<Rightarrow> string" where
  "single_agent_name state = ''browser_use_agent-'' @ task_id_suffix state"

text \<open>The focus call at the head of the loop body; a \<^verbatim>\<open>tab_id\<close> that is empty is falsy.\<close>

definition activate :: "env \<Rightarrow> exn option" where
  "activate env = (case get_activate_tab env of Inl e \<Rightarrow> Some e | Inr tab \<Rightarrow> None)"

fun focus_task :: "env \<Rightarrow> task \<Rightarrow> exn option" where
  "focus_task env (TaskList target d) = get_or_create_cdp_session env target"
| "focus_task env (TaskDict d tab) =
     (case tab of
        None \<Rightarrow> activate env
      | Some x \<Rightarrow> if x = [] then activate env else get_or_create_cdp_session env (Some x))"
| "focus_task env (TaskStr t) = activate env"

text \<open>
  The task text and the constructor on the single path, where the same undefined
  \<^verbatim>\<open>format_upload_files_list\<close> is called when files are uploaded; the \<^verbatim>\<open>NameError\<close> is
  raised inside the outer \<^verbatim>\<open>try\<close>, before the worker is constructed.
\<close>

definition single_bu_task :: "VibeSurfState \<Rightarrow> string \<Rightarrow> string + string" where
  "single_bu_task state d = (if upload_files state \<noteq> [] then Inl name_error else Inr d)"

definition new_single_agent ::
  "env \<Rightarrow> VibeSurfState \<Rightarrow> nat \<Rightarrow> task \<Rightarrow> string + BrowserUseAgent" where
  "new_single_agent env state i t =
     (case single_bu_task state (task_description t) of
        Inl e \<Rightarrow> Inl e
      | Inr bu \<Rightarrow>
          (case BrowserUseAgent_init env (task_id state @ ''-'' @ str_nat i) of
             Inl e \<Rightarrow> Inl e
           | Inr b \<Rightarrow>
               Inr \<lparr>bu_task = bu, browser_session = MainSession,
                    bu_task_id = task_id state @ ''-'' @ str_nat i, acts = b\<rparr>))"

text \<open>
  The body of the outer \<^verbatim>\<open>except Exception as e\<close>: it logs and appends a failed
  result, whose construction is validated like any other.
\<close>

definition single_failed ::
  "string \<Rightarrow> task \<Rightarrow> string \<Rightarrow> BrowserTaskResult list \<Rightarrow> VibeSurfState
     \<Rightarrow> (exn + BrowserTaskResult list) \<times> VibeSurfState" where
  "single_failed aid t e results state =
     (let state = log_agent_activity state (single_agent_name state) ''error''
                    (''Task execution failed: '' @ e)
      in case mk_BrowserTaskResult aid t False None (Some e) of
           Inl v \<Rightarrow> (Inl v, state)
         | Inr r \<Rightarrow> (Inr (results @ [r]), state))"

text \<open>One iteration after the focus call: the outer \<^verbatim>\<open>try\<close> with the inner \<^verbatim>\<open>try/finally\<close>.\<close>

definition single_step ::
  "env \<Rightarrow> nat \<Rightarrow> task \<Rightarrow> BrowserTaskResult list \<Rightarrow> runtime \<Rightarrow> VibeSurfState
     \<Rightarrow> (exn + BrowserTaskResult list) \<times> runtime \<times> VibeSurfState" where
  "single_step env i t results rt state =
     (let aid = single_agent_id state i;
          state = log_agent_activity state (single_agent_name state) ''working''
                    (task_description t)
      in case new_single_agent env state i t of
           Inl e \<Rightarrow>
             (let failed = single_failed aid t e results state in (fst failed, rt, snd failed))
         | Inr agent \<Rightarrow>
             (let rt = (if vibesurf_agent state
                        then rt\<lparr>registry := AList.update aid agent (registry rt)\<rparr> else rt);
                  rt = rt\<lparr>started := started rt @ [agent]\<rparr>;
                  popped = (if vibesurf_agent state
                            then rt\<lparr>registry := AList.delete aid (registry rt)\<rparr> else rt)
              in case on_run (acts agent) of
                   RunRaises e \<Rightarrow>
                     if is_Exception e then
                       (let failed = single_failed aid t (str_exn e) results state
                        in (fst failed, popped, snd failed))
                     else (Inl e, popped, state)
                 | RunReturns h \<Rightarrow>
                     (case mk_BrowserTaskResult aid t (is_successful h) (final_result h)
                             (Some (history_error h)) of
                        Inl v \<Rightarrow>
                          (let failed = single_failed aid t (str_exn v) results state
                           in (fst failed, popped, snd failed))
                      | Inr r \<Rightarrow>
                          (Inr (results @ [r]), popped,
                           if success r
                           then log_agent_activity state (single_agent_name state) ''result''
                                  (''Task completed successfully: '' @ nl @ result_text h)
                           else log_agent_activity state (single_agent_name state) ''error''
                                  (''Task failed: '' @ history_error h)))))"

fun execute_single_loop ::
  "env \<Rightarrow> (nat \<times> task) list \<Rightarrow> BrowserTaskResult list \<Rightarrow> runtime \<Rightarrow> VibeSurfState
     \<Rightarrow> (exn + BrowserTaskResult list) \<times> runtime \<times> VibeSurfState" where
  "execute_single_loop env [] results rt state = (Inr results, rt, state)"
| "execute_single_loop env ((i, t) # rest) results rt state =
     (case focus_task env t of
        Some e \<Rightarrow> (Inl e, rt, state)
      | None \<Rightarrow>
          (case single_step env i t results rt state of
             (Inl e, rt, state) \<Rightarrow> (Inl e, rt, state)
           | (Inr results, rt, state) \<Rightarrow> execute_single_loop env rest results rt state))"

definition execute_single_browser_tasks ::
  "env \<Rightarrow> runtime \<Rightarrow> VibeSurfState
     \<Rightarrow> (exn + BrowserTaskResult list) \<times> runtime \<times> VibeSurfState" where
  "execute_single_browser_tasks env rt state =
     execute_single_loop env (enumerate 0 (browser_tasks state)) [] rt state"

definition execute_tab_based_browser_tasks ::
  "env \<Rightarrow> runtime \<Rightarrow> VibeSurfState
     \<Rightarrow> (exn + BrowserTaskResult list) \<times> runtime \<times> VibeSurfState" where
  "execute_tab_based_browser_tasks env rt state =
     (let task_count = length (browser_tasks state)
      in if task_count \<le> 1 then execute_single_browser_tasks env rt state
         else execute_parallel_browser_tasks env rt state)"

section \<open>The workflow nodes\<close>

text \<open>
  A node returns the exception that leaves it, if any, with the runtime objects and the
  state as its writes left them.
\<close>

type_synonym node_result = "exn option \<times> runtime \<times> VibeSurfState"

text \<open>
  \<^verbatim>\<open>str(task)\<close> in the error handler of the task node, for a descriptor that is no dict:
  the string itself, or the \<^verbatim>\<open>repr\<close> of the list (quotes are not escaped).
\<close>

fun error_task_description :: "task \<Rightarrow> string" where
  "error_task_description (TaskDict d tab) = task_description (TaskDict d tab)"
| "error_task_description (TaskStr t) = t"
| "error_task_description (TaskList target d) =
     ''['' @ (case target of None \<Rightarrow> ''None'' | Some x \<Rightarrow> repr_str x) @ '', '' @ repr_str d @ '']''"

definition browser_task_execution_node_impl :: "env \<Rightarrow> runtime \<Rightarrow> VibeSurfState \<Rightarrow> node_result" where
  "browser_task_execution_node_impl env rt state =
     (let state = log_agent_activity state ''browser_task_executor'' ''working''
                    (''Executing '' @ str_nat (length (browser_tasks state)) @ '' browser tasks'')
      in case execute_tab_based_browser_tasks env rt state of
           (Inr results, rt, state) \<Rightarrow>
             (let state = state\<lparr>browser_results := browser_results state @ results\<rparr>;
                  state = state\<lparr>current_step := ''vibesurf_agent''\<rparr>
              in (None, rt,
                  log_agent_activity state ''browser_task_executor'' ''result''
                    (''Browser execution completed: '' @ str_nat (length (filter success results))
                       @ ''/'' @ str_nat (length results) @ '' tasks successful'')))
         | (Inl e, rt, state) \<Rightarrow>
             if is_Exception e then
               (let error_results =
                      map (\<lambda>t. \<lparr>agent_id = ''error'', task = error_task_description t,
                                 success = False, result = None, error = Some (str_exn e)\<rparr>)
                        (browser_tasks state);
                    state = state\<lparr>browser_results := browser_results state @ error_results\<rparr>;
                    state = state\<lparr>current_step := ''vibesurf_agent''\<rparr>
                in (None, rt,
                    log_agent_activity state ''browser_task_executor'' ''error''
                      (''Browser execution failed: '' @ str_exn e)))
             else (Some e, rt, state))"

definition report_task_execution_node_impl :: "env \<Rightarrow> runtime \<Rightarrow> VibeSurfState \<Rightarrow> node_result" where
  "report_task_execution_node_impl env rt state =
     (let state = log_agent_activity state ''report_task_executor'' ''working''
                    ''Generating HTML report''
      in case generate_report env of
           Inr report_path \<Rightarrow>
             (let state = state\<lparr>generated_report_path := Some report_path\<rparr>;
                  state = state\<lparr>current_step := ''vibesurf_agent''\<rparr>
              in (None, rt,
                  log_agent_activity state ''report_task_executor'' ''result''
                    (''HTML report generated successfully at: `'' @ report_path @ ''`'')))
         | Inl e \<Rightarrow>
             if is_Exception e then
               (None, rt,
                log_agent_activity (state\<lparr>current_step := ''vibesurf_agent''\<rparr>)
                  ''report_task_executor'' ''error'' (''Report generation failed: '' @ str_exn e))
             else (Some e, rt, state))"

text \<open>The planning node and its formatters.\<close>

fun join :: "string \<Rightarrow> string list \<Rightarrow> string" where
  "join sep [] = []"
| "join sep [x] = x"
| "join sep (x # y # ys) = x @ sep @ join sep (y # ys)"

definition format_browser_tabs :: "TabInfo list \<Rightarrow> string" where
  "format_browser_tabs tabs =
     join nl (map (\<lambda>it. ''['' @ str_nat (fst it) @ ''] Page Title: '' @ title (snd it)
                           @ '', Page Url: '' @ url (snd it)
                           @ '', Page ID: '' @ tab_target_id (snd it))
                (enumerate 0 tabs))"

definition truthy :: "string option \<Rightarrow> bool" where
  "truthy x = (case x of None \<Rightarrow> False | Some v \<Rightarrow> v \<noteq> [])"

definition format_browser_results :: "BrowserTaskResult list \<Rightarrow> string" where
  "format_browser_results rs =
     join nl (concat (map (\<lambda>r.
        [(if success r then ''Success'' else ''Failed'') @ '': '' @ task r]
        @ (if truthy (result r) then [''  Result: '' @ the (result r) @ ''...''] else [])
        @ (if truthy (error r) then [''  Error: '' @ the (error r)] else [])) rs))"

definition context_info :: "TabInfo list \<Rightarrow> TabInfo option \<Rightarrow> VibeSurfState \<Rightarrow> string list" where
  "context_info tabs active state =
     (if format_browser_tabs tabs \<noteq> []
      then [''Available Browser Tabs:'' @ nl @ format_browser_tabs tabs] else [])
     @ (case active of
          None \<Rightarrow> []
        | Some tab \<Rightarrow>
            [''Current Active Browser Tab:'' @ nl @ ''Page Title: '' @ title tab
               @ '', Page Url: '' @ url tab @ '', Page ID: '' @ tab_target_id tab])
     @ (if browser_results state \<noteq> []
        then [''Previous Browser Results:'' @ nl @ format_browser_results (browser_results state)]
        else [])
     @ (if truthy (generated_report_path state)
        then [''Generated Report Path: '' @ the (generated_report_path state)] else [])"

definition task_done_response :: "string option \<Rightarrow> string list \<Rightarrow> string" where
  "task_done_response response follow_tasks =
     (case response of None \<Rightarrow> ''Task completed'' | Some r \<Rightarrow> r)
     @ (if follow_tasks \<noteq> []
        then nl @ nl @ ''## Suggested Follow-up Tasks:'' @ nl
               @ concat (map (\<lambda>it. str_nat (fst it) @ ''. '' @ snd it @ nl)
                           (enumerate 1 (take 3 follow_tasks)))
        else [])"

text \<open>
  The two halves of the branch for an ordinary action: the activity entry for the todo
  actions before the call of \<^verbatim>\<open>state.tools.act\<close>, and the messages and entries for its
  result after it.
\<close>

definition note_todos :: "env \<Rightarrow> string \<Rightarrow> VibeSurfState \<Rightarrow> VibeSurfState" where
  "note_todos env name state =
     (if name \<in> set [''generate_todos'', ''read_todos'', ''modify_todos'']
      then (case read_todo env of
              None \<Rightarrow> state
            | Some todo \<Rightarrow> log_agent_activity state ''vibesurf_agent'' ''working'' todo)
      else state)"

definition record_action_result :: "ActionResult \<Rightarrow> VibeSurfState \<Rightarrow> VibeSurfState" where
  "record_action_result res state =
     (let state = (if truthy (extracted_content res)
                   then log_agent_activity
                          (state\<lparr>message_history := message_history state @
                             [UserMessage (''Action result:'' @ nl @ the (extracted_content res))]\<rparr>)
                          ''vibesurf_agent'' ''result'' (the (extracted_content res))
                   else state)
      in if truthy (action_error res)
         then log_agent_activity
                (state\<lparr>message_history := message_history state @
                   [UserMessage (''Action error:'' @ nl @ the (action_error res))]\<rparr>)
                ''vibesurf_agent'' ''error'' (the (action_error res))
         else state)"

text \<open>
  The loop over the actions, inside the \<^verbatim>\<open>try\<close> block. The exception, if any, is
  returned beside the state as written so far.
\<close>

fun process_actions :: "env \<Rightarrow> action list \<Rightarrow> VibeSurfState \<Rightarrow> exn option \<times> VibeSurfState" where
  "process_actions env [] state = (None, state)"
| "process_actions env (ExecuteBrowserUseAgentTasks ts # rest) state =
     (let state = state\<lparr>browser_tasks := (case ts of None \<Rightarrow> [] | Some x \<Rightarrow> x)\<rparr>;
          state = state\<lparr>current_action := Some ''execute_browser_use_agent_tasks''\<rparr>;
          state = state\<lparr>action_params := Some (ExecuteBrowserUseAgentTasks ts)\<rparr>;
          state = state\<lparr>current_step := ''browser_task_execution''\<rparr>
      in (None, log_agent_activity state ''vibesurf_agent'' ''result''
                  (''Routing to browser task execution with ''
                     @ str_nat (length (browser_tasks state)) @ '' tasks'')))"
| "process_actions env (ExecuteReportWriterAgent # rest) state =
     (let state = state\<lparr>current_action := Some ''execute_report_writer_agent''\<rparr>;
          state = state\<lparr>action_params := Some ExecuteReportWriterAgent\<rparr>;
          state = state\<lparr>current_step := ''report_task_execution''\<rparr>
      in (None, log_agent_activity state ''vibesurf_agent'' ''result''
                  ''Routing to report generation''))"
| "process_actions env (TaskDone response follow_tasks # rest) state =
     (let state = state\<lparr>final_response := Some (task_done_response response follow_tasks)\<rparr>;
          state = state\<lparr>is_complete := True\<rparr>
      in (None, log_agent_activity state ''vibesurf_agent'' ''result''
                  (task_done_response response follow_tasks)))"
| "process_actions env (Other name # rest) state =
     (case tools_act env name of
        Inl e \<Rightarrow> (Some e, note_todos env name state)
      | Inr res \<Rightarrow>
          process_actions env rest (record_action_result res (note_todos env name state)))"

text \<open>The \<^verbatim>\<open>try\<close> block of the planning node, and the node with its handler.\<close>

definition planning_try :: "env \<Rightarrow> VibeSurfState \<Rightarrow> exn option \<times> VibeSurfState" where
  "planning_try env state =
     (case llm_ainvoke env (message_history state) of
        Inl e \<Rightarrow> (Some e, state)
      | Inr parsed \<Rightarrow>
          (let state = state\<lparr>message_history := message_history state @
                          [AssistantMessage (completion parsed)]\<rparr>;
               state = (if truthy (thinking parsed)
                        then log_agent_activity state ''vibesurf_agent'' ''thinking''
                               (the (thinking parsed))
                        else state)
           in process_actions env (actions parsed) state))"

definition planning_failed :: "exn \<Rightarrow> VibeSurfState \<Rightarrow> VibeSurfState" where
  "planning_failed e state =
     (let state = state\<lparr>final_response := Some (''Task execution failed: '' @ str_exn e)\<rparr>;
          state = state\<lparr>is_complete := True\<rparr>
      in log_agent_activity state ''vibesurf_agent'' ''error'' (''Agent failed: '' @ str_exn e))"

definition vibesurf_agent_node_impl :: "env \<Rightarrow> runtime \<Rightarrow> VibeSurfState \<Rightarrow> node_result" where
  "vibesurf_agent_node_impl env rt state =
     (case get_tabs env of
        Inl e \<Rightarrow> (Some e, rt, state)
      | Inr browser_tabs \<Rightarrow>
          (case get_activate_tab env of
             Inl e \<Rightarrow> (Some e, rt, state)
           | Inr active_browser_tab \<Rightarrow>
               (let info = context_info browser_tabs active_browser_tab state;
                    state = (if info \<noteq> []
                             then state\<lparr>message_history := message_history state @
                                    [UserMessage (join (nl @ nl) info)]\<rparr>
                             else state)
                in case planning_try env state of
                     (None, state) \<Rightarrow> (None, rt, state)
                   | (Some e, state) \<Rightarrow>
                       if is_Exception e then (None, rt, planning_failed e state)
                       else (Some e, rt, state))))"

section \<open>The workflow graph\<close>

definition route_after_vibesurf_agent :: "VibeSurfState \<Rightarrow> string" where
  "route_after_vibesurf_agent state =
     (if current_step state = ''browser_task_execution'' then ''browser_task_execution''
      else if current_step state = ''report_task_execution'' then ''report_task_execution''
      else if current_step state = ''vibesurf_agent'' then ''vibesurf_agent''
      else if is_complete state then ''END''
      else ''END'')"

definition route_after_browser_task_execution :: "VibeSurfState \<Rightarrow> string" where
  "route_after_browser_task_execution state = ''vibesurf_agent''"

definition route_after_report_task_execution :: "VibeSurfState \<Rightarrow> string" where
  "route_after_report_task_execution state = ''vibesurf_agent''"

text \<open>Defined by the source, attached to no edge of the graph.\<close>

definition should_continue :: "VibeSurfState \<Rightarrow> string" where
  "should_continue state = (if is_complete state then ''END'' else ''continue'')"

text \<open>
  \<^verbatim>\<open>create_vibe_surf_workflow\<close>: three nodes, each the wrapper around its implementation,
  the entry point \<^verbatim>\<open>vibesurf_agent\<close>, and one conditional edge per node.
\<close>

definition node_impl :: "env \<Rightarrow> string \<Rightarrow> runtime \<Rightarrow> VibeSurfState \<Rightarrow> node_result" where
  "node_impl env name rt state =
     (if name = ''vibesurf_agent'' then vibesurf_agent_node_impl env rt state
      else if name = ''browser_task_execution'' then browser_task_execution_node_impl env rt state
      else report_task_execution_node_impl env rt state)"

definition conditional_edge :: "string \<Rightarrow> VibeSurfState \<Rightarrow> string" where
  "conditional_edge name state =
     (if name = ''vibesurf_agent'' then route_after_vibesurf_agent state
      else if name = ''browser_task_execution'' then route_after_browser_task_execution state
      else route_after_report_task_execution state)"

text \<open>
  The run of the compiled graph from a node, for a bounded number of node executions
  (the graph runtime has such a bound), with no control operation arriving while a
  wrapper sleeps. \<open>Finished\<close>: an edge led to \<^verbatim>\<open>END\<close>. \<open>Raised\<close>: a node raised.
  \<open>Suspended\<close>: a wrapper is polling in its pause loop. \<open>OutOfSteps\<close>: the bound was
  reached with the graph still running.
\<close>

datatype run_result = Finished VibeSurfState
  | Raised exn VibeSurfState
  | Suspended VibeSurfState
  | OutOfSteps string VibeSurfState

fun ainvoke :: "env \<Rightarrow> nat \<Rightarrow> string \<Rightarrow> runtime \<Rightarrow> VibeSurfState \<Rightarrow> run_result \<times> runtime" where
  "ainvoke env 0 name rt state = (OutOfSteps name state, rt)"
| "ainvoke env (Suc k) name rt state =
     (case control_aware_node (node_impl env name rt) state [] of
        Waiting s n \<Rightarrow> (Suspended s, rt)
      | Skipped s n \<Rightarrow>
          if conditional_edge name s = ''END'' then (Finished s, rt)
          else ainvoke env k (conditional_edge name s) rt s
      | Executed r n \<Rightarrow>
          (case r of
             (Some e, rt, s) \<Rightarrow> (Raised e s, rt)
           | (None, rt, s) \<Rightarrow>
               if conditional_edge name s = ''END'' then (Finished s, rt)
               else ainvoke env k (conditional_edge name s) rt s))"

section \<open>Sample collaborators\<close>

text \<open>
  A worker that succeeds, collaborators that never fail, and runtime objects with
  nothing registered: the concrete inputs of the evaluations below are variations of
  these.
\<close>

definition worker_ok :: behaviour where
  "worker_ok =
     \<lparr>on_pause = HookOk, on_resume = HookOk, on_stop = HookOk, agent_state = LastResult False,
      on_run = RunReturns \<lparr>is_successful = True, final_result = Some ''done'',
                           has_errors = False, errors = ''[]''\<rparr>\<rparr>"

definition quiet_env :: env where
  "quiet_env =
     \<lparr>register_agent = (\<lambda>aid target. None),
      BrowserUseAgent_init = (\<lambda>tid. Inr worker_ok),
      get_or_create_cdp_session = (\<lambda>target. None),
      cancelled = False,
      get_tabs = Inr [],
      get_activate_tab = Inr None,
      llm_ainvoke = (\<lambda>history. Inr \<lparr>thinking = None, actions = [TaskDone (Some ''ok'') []],
                                      completion = ''ok''\<rparr>),
      tools_act = (\<lambda>name. Inr \<lparr>extracted_content = None, action_error = None\<rparr>),
      read_todo = None,
      generate_report = Inr ''report.html''\<rparr>"

text \<open>The collaborators of a session whose task id is \<^verbatim>\<open>0001\<close>, where the constructor of
  the first worker of a parallel dispatch raises and everything else goes well.\<close>

definition first_constructor_fails :: env where
  "first_constructor_fails =
     quiet_env\<lparr>BrowserUseAgent_init :=
       (\<lambda>tid. if tid = ''0001-1'' then Inl ''no browser'' else Inr worker_ok)\<rparr>"

definition empty_runtime :: runtime where
  "empty_runtime =
     \<lparr>registry = [], browser_manager = \<lparr>sessions = [], unregister_calls = []\<rparr>, started = []\<rparr>"

section \<open>Properties\<close>

subsection \<open>The pause loop\<close>

lemma asyncio_sleep_stop: "CtlStop \<in> set ops \<Longrightarrow> stopped (asyncio_sleep s ops)"
proof -
  have keep: "stopped (foldl apply_ctl t xs)" if "stopped t" for t xs
    using that
  proof (induction xs arbitrary: t)
    case Nil
    then show ?case by simp
  next
    case (Cons x xs)
    have "stopped (apply_ctl t x)" using Cons.prems by (cases x) simp_all
    then show ?case using Cons.IH by simp
  qed
  show "CtlStop \<in> set ops \<Longrightarrow> stopped (asyncio_sleep s ops)"
    unfolding asyncio_sleep_def
  proof (induction ops arbitrary: s)
    case Nil
    then show ?case by simp
  next
    case (Cons x xs)
    show ?case
    proof (cases "x = CtlStop")
      case True
      then show ?thesis using keep [of "apply_ctl s x" xs] by simp
    next
      case False
      then show ?thesis using Cons by simp
    qed
  qed
qed

lemma pause_wait_stop_visible:
  assumes "paused s \<or> should_pause s"
    and "stopped (asyncio_sleep (mark_paused s) ops) \<or> should_stop (asyncio_sleep (mark_paused s) ops)"
  shows "pause_wait s (ops # sched) n =
           StoppedWhilePaused
             ((asyncio_sleep (mark_paused s) ops)\<lparr>stopped := True, should_stop := False\<rparr>) (Suc n)"
  using assms by (simp add: Let_def)

lemma pause_wait_blocked:
  assumes "pause_wait s pre n = Blocked t m"
  shows "m = n + length pre \<and> paused t"
  using assms
proof (induction pre arbitrary: s n)
  case Nil
  then show ?case by (auto simp add: mark_paused_def split: if_splits)
next
  case (Cons p ps)
  let ?s2 = "asyncio_sleep (mark_paused s) p"
  have "pause_wait ?s2 ps (Suc n) = Blocked t m"
    using Cons.prems by (simp add: Let_def split: if_splits)
  then show ?case using Cons.IH [of ?s2 "Suc n"] by simp
qed

lemma pause_wait_after_blocked:
  assumes "pause_wait s pre n = Blocked t m"
  shows "pause_wait s (pre @ ops # sched) n =
           (if stopped (asyncio_sleep t ops) \<or> should_stop (asyncio_sleep t ops)
            then StoppedWhilePaused
                   ((asyncio_sleep t ops)\<lparr>stopped := True, should_stop := False\<rparr>) (Suc m)
            else pause_wait (asyncio_sleep t ops) sched (Suc m))"
  using assms
proof (induction pre arbitrary: s n)
  case Nil
  then have "(paused s \<or> should_pause s) \<and> t = mark_paused s \<and> m = n"
    by (simp split: if_splits)
  then show ?case by (simp add: Let_def)
next
  case (Cons p ps)
  let ?s2 = "asyncio_sleep (mark_paused s) p"
  have active: "paused s \<or> should_pause s"
    using Cons.prems by (simp split: if_splits)
  have quiet: "\<not> (stopped ?s2 \<or> should_stop ?s2)"
    using Cons.prems active by (simp add: Let_def split: if_splits)
  have rest: "pause_wait ?s2 ps (Suc n) = Blocked t m"
    using Cons.prems active quiet by (simp add: Let_def)
  have "pause_wait s ((p # ps) @ ops # sched) n = pause_wait ?s2 (ps @ ops # sched) (Suc n)"
    using active quiet by (simp add: Let_def)
  then show ?case using Cons.IH [OF rest] by simp
qed

text \<open>
  Claim C3. Let the wrapper be entered in a state that is not stopped, and let it have
  polled through any number of intervals \<open>pre\<close> without leaving its pause loop: the loop
  is active, in state \<open>t\<close>, after \<open>m\<close> sleeps (none, when \<open>pre\<close> is empty and the state at
  entry has \<open>paused\<close> or \<open>should_pause\<close> set). If a stop request is visible when the
  next sleep ends (\<open>stopped\<close> or \<open>should_stop\<close> holds in the state that sleep leaves),
  then the wrapper returns after exactly that one further sleep, \<open>Skipped\<close>, for every
  node function and whatever the schedule holds afterwards: the wrapped step is not
  executed, and the state returned has \<open>stopped\<close> set and \<open>should_stop\<close> cleared.
\<close>

theorem gate_stop_while_paused:
  assumes "\<not> stopped s"
    and "pause_wait s pre 0 = Blocked t m"
    and "stopped (asyncio_sleep t ops) \<or> should_stop (asyncio_sleep t ops)"
  shows "control_aware_node node_func s (pre @ ops # sched) =
           Skipped ((asyncio_sleep t ops)\<lparr>stopped := True, should_stop := False\<rparr>) (Suc (length pre))
       \<and> m = length pre
       \<and> paused t
       \<and> stopped ((asyncio_sleep t ops)\<lparr>stopped := True, should_stop := False\<rparr>)
       \<and> \<not> should_stop ((asyncio_sleep t ops)\<lparr>stopped := True, should_stop := False\<rparr>)"
proof -
  have m: "m = length pre" and p: "paused t"
    using pause_wait_blocked [OF assms(2)] by simp_all
  have loop: "pause_wait s (pre @ ops # sched) 0 =
      StoppedWhilePaused ((asyncio_sleep t ops)\<lparr>stopped := True, should_stop := False\<rparr>) (Suc m)"
    using pause_wait_after_blocked [OF assms(2), of ops sched] assms(3) by simp
  have gate: "control_aware_node node_func s (pre @ ops # sched) =
      Skipped ((asyncio_sleep t ops)\<lparr>stopped := True, should_stop := False\<rparr>) (Suc m)"
    unfolding control_aware_node_def using assms(1) loop by simp
  show ?thesis using gate m p by simp
qed

theorem gate_stop_while_paused_witness:
  "control_aware_node (\<lambda>s. s\<lparr>is_complete := True\<rparr>)
     ((initial_state ''t'' [] ''sid'' ''0001'')\<lparr>should_pause := True\<rparr>)
     [[], [CtlPause], [CtlStop], [CtlResume]] =
   Skipped ((initial_state ''t'' [] ''sid'' ''0001'')
              \<lparr>paused := True, should_pause := True, stopped := True\<rparr>) 3"
proof -
  let ?s = "(initial_state ''t'' [] ''sid'' ''0001'')\<lparr>should_pause := True\<rparr>"
  let ?t = "(initial_state ''t'' [] ''sid'' ''0001'')\<lparr>paused := True, should_pause := True\<rparr>"
  have a: "\<not> stopped ?s" by (simp add: initial_state_def)
  have b: "pause_wait ?s [[], [CtlPause]] 0 = Blocked ?t 2"
    by (simp add: asyncio_sleep_def mark_paused_def initial_state_def Let_def)
  have c: "stopped (asyncio_sleep ?t [CtlStop]) \<or> should_stop (asyncio_sleep ?t [CtlStop])"
    by (simp add: asyncio_sleep_def)
  have d: "[[], [CtlPause], [CtlStop], [CtlResume]] = [[], [CtlPause]] @ [CtlStop] # [[CtlResume]]"
    by simp
  show ?thesis
    unfolding d
    using gate_stop_while_paused [OF a b c, of "\<lambda>s. s\<lparr>is_complete := True\<rparr>" "[[CtlResume]]"]
    by (simp add: asyncio_sleep_def initial_state_def)
qed

subsection \<open>The status reporter on a completed session\<close>

text \<open>
  Claim C1 says that \<^verbatim>\<open>get_status\<close> reports a session whose completion flag is set, and
  which is neither stopped nor paused, as complete. Evaluated on such a session (the
  state of a fresh run with \<open>is_complete\<close> set, an empty registry), the method computes
  the string \<^verbatim>\<open>"completed"\<close>, which the \<^verbatim>\<open>Literal\<close> type of \<^verbatim>\<open>overall_status\<close> does not
  admit; the constructor raises, the handler catches, and the status returned is
  \<^verbatim>\<open>"error"\<close> with the validation failure as its progress text.
\<close>

theorem get_status_completed_session:
  "get_status \<lparr>current_state = Some ((initial_state ''t'' [] ''sid'' ''0001'')\<lparr>is_complete := True\<rparr>),
               running_agents = [], agent_message_history = [], execution_task = False\<rparr>
   = Inr \<lparr>overall_status = ''error'', agent_statuses = [],
          progress = [(''error'', PStr ''1 validation error for VibeSurfStatus overall_status'')],
          active_step = None\<rparr>"
  by code_simp

subsection \<open>Parallel dispatch on concrete inputs\<close>

text \<open>
  Claim C2 says that the results accumulated in the state match the descriptors in
  length and position, also when the creation of some workers fails. Evaluated on the
  two descriptors \<^verbatim>\<open>"a"\<close> and \<^verbatim>\<open>"b"\<close> where the constructor of the first worker raises:
  the task node returns normally, the only worker that ran is the one for \<^verbatim>\<open>"b"\<close>, and
  the state holds a single result, filed under the description \<^verbatim>\<open>"a"\<close>.
\<close>

theorem parallel_results_after_creation_failure:
  "(case browser_task_execution_node_impl
           (quiet_env\<lparr>BrowserUseAgent_init :=
              (\<lambda>tid. if tid = ''0001-1'' then Inl ''no browser'' else Inr worker_ok)\<rparr>)
           empty_runtime
           ((initial_state ''t'' [] ''sid'' ''0001'')\<lparr>browser_tasks := [TaskStr ''a'', TaskStr ''b'']\<rparr>) of
      (raised, rt, state) \<Rightarrow>
        raised = None \<and> map task (browser_results state) = [''a'']
        \<and> map bu_task (started rt) = [''b''])"
  by code_simp

text \<open>
  Claim C4 says that every session acquired for a task without explicit target is
  released whatever the outcome, also when a registration raises. Evaluated on two
  dict descriptors, the first without \<^verbatim>\<open>tab_id\<close>, where the registration of the second
  raises: the exception leaves \<^verbatim>\<open>execute_parallel_browser_tasks\<close> at the gather that
  precedes the \<^verbatim>\<open>try\<close>, the session acquired for the first task is still held, and
  \<^verbatim>\<open>unregister_agent\<close> was never called.
\<close>

theorem registration_failure_skips_cleanup:
  "(case execute_parallel_browser_tasks
           (quiet_env\<lparr>register_agent :=
              (\<lambda>aid target. if target = Some ''tab2'' then Some (Exception ''boom'') else None)\<rparr>)
           empty_runtime
           ((initial_state ''t'' [] ''sid'' ''0001'')\<lparr>browser_tasks :=
              [TaskDict (Some ''a'') None, TaskDict (Some ''b'') (Some ''tab2'')]\<rparr>) of
      (outcome, rt, state) \<Rightarrow>
        outcome = Inl (Exception ''boom'')
        \<and> sessions (browser_manager rt) = [(''agent-1-0001'', None)]
        \<and> unregister_calls (browser_manager rt) = [])"
  by code_simp

text \<open>
  Claim C5 says that a worker whose run raises is recorded as failed with the text of
  its exception, that nothing is raised out of the dispatcher, and that the other
  workers get their own entries. Evaluated on two dict descriptors where the first
  worker raises \<^verbatim>\<open>"boom"\<close> and the second succeeds: building the first result passes the
  dict itself as \<^verbatim>\<open>task\<close>, the validation error leaves the dispatcher, and the task node
  records both tasks as failed with the text of the validation error.
\<close>

theorem worker_exception_with_dict_descriptors:
  "(case execute_parallel_browser_tasks
           (quiet_env\<lparr>BrowserUseAgent_init :=
              (\<lambda>tid. if tid = ''0001-1''
                      then Inr (worker_ok\<lparr>on_run := RunRaises (Exception ''boom'')\<rparr>)
                      else Inr worker_ok)\<rparr>)
           empty_runtime
           ((initial_state ''t'' [] ''sid'' ''0001'')\<lparr>browser_tasks :=
              [TaskDict (Some ''a'') None, TaskDict (Some ''b'') None]\<rparr>) of
      (outcome, rt, state) \<Rightarrow>
        outcome = Inl (Exception ''1 validation error for BrowserTaskResult task''))
   \<and> (case browser_task_execution_node_impl
           (quiet_env\<lparr>BrowserUseAgent_init :=
              (\<lambda>tid. if tid = ''0001-1''
                      then Inr (worker_ok\<lparr>on_run := RunRaises (Exception ''boom'')\<rparr>)
                      else Inr worker_ok)\<rparr>)
           empty_runtime
           ((initial_state ''t'' [] ''sid'' ''0001'')\<lparr>browser_tasks :=
              [TaskDict (Some ''a'') None, TaskDict (Some ''b'') None]\<rparr>) of
      (raised, rt, state) \<Rightarrow>
        map success (browser_results state) = [False, False]
        \<and> map error (browser_results state) =
            [Some ''1 validation error for BrowserTaskResult task'',
             Some ''1 validation error for BrowserTaskResult task''])"
  by code_simp

subsection \<open>A planner that raises\<close>

text \<open>
  Claim C8 says that an exception of the planner ends the run loop without a retry.
  Evaluated on the state of a fresh run with a planner that raises \<^verbatim>\<open>"boom"\<close>: the
  planning node sets the completion flag and the final response, but the edge after it
  tests \<^verbatim>\<open>current_step == "vibesurf_agent"\<close> before the completion flag and leads back to
  the planning node; after three node executions the graph is still running and the
  planner has been invoked, and has failed, three times.
\<close>

theorem planner_exception_reenters_planning:
  "route_after_vibesurf_agent
     (snd (snd (vibesurf_agent_node_impl
        (quiet_env\<lparr>llm_ainvoke := (\<lambda>history. Inl (Exception ''boom''))\<rparr>)
        empty_runtime (initial_state ''t'' [] ''sid'' ''0001'')))) = ''vibesurf_agent''
   \<and> fst (ainvoke (quiet_env\<lparr>llm_ainvoke := (\<lambda>history. Inl (Exception ''boom''))\<rparr>) 3
             ''vibesurf_agent'' empty_runtime (initial_state ''t'' [] ''sid'' ''0001''))
       = OutOfSteps ''vibesurf_agent''
           ((initial_state ''t'' [] ''sid'' ''0001'')
              \<lparr>is_complete := True,
               final_response := Some ''Task execution failed: boom'',
               activity_logs := replicate 3
                 \<lparr>agent_name = ''vibesurf_agent'', agent_status = ''error'',
                  agent_msg = ''Agent failed: boom''\<rparr>\<rparr>)"
  by code_simp

subsection \<open>Control of a single worker\<close>

text \<open>
  Claim C7. For an agent id that the registry does not hold, \<^verbatim>\<open>pause_agent\<close> and
  \<^verbatim>\<open>resume_agent\<close> return a result with \<open>success = True\<close>, log the one warning that the
  agent was not found, and leave the controller as it was. For an id that the registry
  holds, a pause (resume) hook that raises an exception makes the method return a
  result with \<open>success = False\<close> whose message carries the text of the exception. Both
  methods are total functions into results: nothing is raised to the caller.
\<close>

theorem agent_control_not_found_or_hook_raises:
  "(map_of (running_agents self) aid = None \<longrightarrow>
      ctl_success (fst (pause_agent self aid reason))
      \<and> fst (snd (pause_agent self aid reason)) = [''Agent '' @ aid @ '' not found'']
      \<and> snd (snd (pause_agent self aid reason)) = self
      \<and> ctl_success (fst (resume_agent self aid reason))
      \<and> fst (snd (resume_agent self aid reason)) = [''Agent '' @ aid @ '' not found'']
      \<and> snd (snd (resume_agent self aid reason)) = self)
   \<and> (map_of (running_agents self) aid = Some agent \<and> on_pause (acts agent) = HookRaises e \<longrightarrow>
        \<not> ctl_success (fst (pause_agent self aid reason))
        \<and> ctl_message (fst (pause_agent self aid reason)) = ''Failed to pause agent '' @ aid @ '': '' @ e)
   \<and> (map_of (running_agents self) aid = Some agent \<and> on_resume (acts agent) = HookRaises e \<longrightarrow>
        \<not> ctl_success (fst (resume_agent self aid reason))
        \<and> ctl_message (fst (resume_agent self aid reason)) = ''Failed to resume agent '' @ aid @ '': '' @ e)"
  by (simp add: pause_agent_def resume_agent_def Let_def)

theorem agent_control_not_found_or_hook_raises_witness:
  "ctl_success (fst (pause_agent
      \<lparr>current_state = None,
       running_agents = [(''w1'', \<lparr>bu_task = ''a'', browser_session = MainSession, bu_task_id = ''0001-0'',
          acts = worker_ok\<lparr>on_pause := HookRaises ''boom'', on_resume := HookRaises ''bang''\<rparr>\<rparr>)],
       agent_message_history = [], execution_task = False\<rparr> ''ghost'' None))
   \<and> \<not> ctl_success (fst (pause_agent
      \<lparr>current_state = None,
       running_agents = [(''w1'', \<lparr>bu_task = ''a'', browser_session = MainSession, bu_task_id = ''0001-0'',
          acts = worker_ok\<lparr>on_pause := HookRaises ''boom'', on_resume := HookRaises ''bang''\<rparr>\<rparr>)],
       agent_message_history = [], execution_task = False\<rparr> ''w1'' None))
   \<and> \<not> ctl_success (fst (resume_agent
      \<lparr>current_state = None,
       running_agents = [(''w1'', \<lparr>bu_task = ''a'', browser_session = MainSession, bu_task_id = ''0001-0'',
          acts = worker_ok\<lparr>on_pause := HookRaises ''boom'', on_resume := HookRaises ''bang''\<rparr>\<rparr>)],
       agent_message_history = [], execution_task = False\<rparr> ''w1'' None))"
proof -
  let ?w = "\<lparr>bu_task = ''a'', browser_session = MainSession, bu_task_id = ''0001-0'',
          acts = worker_ok\<lparr>on_pause := HookRaises ''boom'', on_resume := HookRaises ''bang''\<rparr>\<rparr>"
  let ?self = "\<lparr>current_state = None, running_agents = [(''w1'', ?w)],
       agent_message_history = [], execution_task = False\<rparr>"
  have absent: "map_of (running_agents ?self) ''ghost'' = None" by simp
  have present: "map_of (running_agents ?self) ''w1'' = Some ?w" by simp
  have p: "on_pause (acts ?w) = HookRaises ''boom''" by simp
  have r: "on_resume (acts ?w) = HookRaises ''bang''" by simp
  show ?thesis
    using agent_control_not_found_or_hook_raises [of ?self "''ghost''" None ?w "''boom''"]
      agent_control_not_found_or_hook_raises [of ?self "''w1''" None ?w "''boom''"]
      agent_control_not_found_or_hook_raises [of ?self "''w1''" None ?w "''bang''"]
      absent present p r
    by blast
qed

subsection \<open>Dispatch of an empty task list\<close>

text \<open>
  Claim C10. When the list of task descriptors is empty, the dispatcher takes the
  single path and returns the empty result list, raising nothing and leaving runtime
  objects and state untouched; the task node then returns normally with the task
  results of the state unchanged and the current step set back to the planning node
  \<^verbatim>\<open>vibesurf_agent\<close>.
\<close>

theorem empty_task_list_dispatch:
  assumes "browser_tasks state = []"
  shows "execute_tab_based_browser_tasks env rt state = execute_single_browser_tasks env rt state
    \<and> execute_tab_based_browser_tasks env rt state = (Inr [], rt, state)
    \<and> fst (browser_task_execution_node_impl env rt state) = None
    \<and> fst (snd (browser_task_execution_node_impl env rt state)) = rt
    \<and> browser_results (snd (snd (browser_task_execution_node_impl env rt state))) = browser_results state
    \<and> current_step (snd (snd (browser_task_execution_node_impl env rt state))) = ''vibesurf_agent''"
proof -
  have single: "execute_single_browser_tasks env rt s = (Inr [], rt, s)" if "browser_tasks s = []" for s
    using that by (simp add: execute_single_browser_tasks_def enumerate_eq_zip)
  have tab: "execute_tab_based_browser_tasks env rt s = (Inr [], rt, s)" if "browser_tasks s = []" for s
    using that single [of s] by (simp add: execute_tab_based_browser_tasks_def)
  let ?s = "log_agent_activity state ''browser_task_executor'' ''working''
              (''Executing '' @ str_nat (length (browser_tasks state)) @ '' browser tasks'')"
  have empty: "browser_tasks ?s = []" using assms by (simp add: log_agent_activity_def)
  have node: "browser_task_execution_node_impl env rt state =
      (None, rt, log_agent_activity
         (?s\<lparr>browser_results := browser_results ?s @ [], current_step := ''vibesurf_agent''\<rparr>)
         ''browser_task_executor'' ''result''
         (''Browser execution completed: '' @ str_nat (length (filter success []))
            @ ''/'' @ str_nat (length ([] :: BrowserTaskResult list)) @ '' tasks successful''))"
    unfolding browser_task_execution_node_impl_def using tab [OF empty] by (simp add: Let_def)
  show ?thesis
    using tab [OF assms] single [OF assms] node by (simp add: log_agent_activity_def)
qed

theorem empty_task_list_dispatch_witness:
  "browser_task_execution_node_impl quiet_env empty_runtime (initial_state ''t'' [] ''sid'' ''0001'')
   = (None, empty_runtime,
      (initial_state ''t'' [] ''sid'' ''0001'')\<lparr>activity_logs :=
         [\<lparr>agent_name = ''browser_task_executor'', agent_status = ''working'',
           agent_msg = ''Executing 0 browser tasks''\<rparr>,
          \<lparr>agent_name = ''browser_task_executor'', agent_status = ''result'',
           agent_msg = ''Browser execution completed: 0/0 tasks successful''\<rparr>]\<rparr>)
   \<and> execute_tab_based_browser_tasks quiet_env empty_runtime (initial_state ''t'' [] ''sid'' ''0001'')
       = (Inr [], empty_runtime, initial_state ''t'' [] ''sid'' ''0001'')"
proof -
  have e: "browser_tasks (initial_state ''t'' [] ''sid'' ''0001'') = []"
    by (simp add: initial_state_def)
  have n: "browser_task_execution_node_impl quiet_env empty_runtime (initial_state ''t'' [] ''sid'' ''0001'')
   = (None, empty_runtime,
      (initial_state ''t'' [] ''sid'' ''0001'')\<lparr>activity_logs :=
         [\<lparr>agent_name = ''browser_task_executor'', agent_status = ''working'',
           agent_msg = ''Executing 0 browser tasks''\<rparr>,
          \<lparr>agent_name = ''browser_task_executor'', agent_status = ''result'',
           agent_msg = ''Browser execution completed: 0/0 tasks successful''\<rparr>]\<rparr>)"
    by code_simp
  have t: "execute_tab_based_browser_tasks quiet_env empty_runtime (initial_state ''t'' [] ''sid'' ''0001'')
       = (Inr [], empty_runtime, initial_state ''t'' [] ''sid'' ''0001'')"
    using empty_task_list_dispatch [OF e, of quiet_env empty_runtime] by blast
  show ?thesis using n t by blast
qed

subsection \<open>The stopped flag\<close>

lemma log_agent_activity_fields [simp]:
  "stopped (log_agent_activity s name st msg) = stopped s"
  "task_id (log_agent_activity s name st msg) = task_id s"
  "vibesurf_agent (log_agent_activity s name st msg) = vibesurf_agent s"
  "browser_tasks (log_agent_activity s name st msg) = browser_tasks s"
  "upload_files (log_agent_activity s name st msg) = upload_files s"
  by (simp_all add: log_agent_activity_def)

lemma create_agents_stopped:
  "stopped (snd (snd (create_agents env xs agents rt state))) = stopped state"
proof (induction xs arbitrary: agents rt state)
  case Nil
  then show ?case by simp
next
  case (Cons x xs)
  obtain i t sess where x: "x = ((i, t), sess)" by (metis prod.collapse)
  show ?case unfolding x by (simp add: Let_def Cons.IH split: sum.splits)
qed

lemma process_histories_stopped:
  "stopped (snd (process_histories xs results state)) = stopped state"
proof (induction xs arbitrary: results state)
  case Nil
  then show ?case by simp
next
  case (Cons x xs)
  obtain i t agent where x: "x = ((i, t), agent)" by (metis prod.collapse)
  show ?case unfolding x by (simp add: Cons.IH split: run_outcome.splits sum.splits)
qed

lemma execute_parallel_stopped:
  "stopped (snd (snd (execute_parallel_browser_tasks env rt state))) = stopped state"
proof -
  obtain r rt1 where reg: "register_all env rt state = (r, rt1)" by (metis prod.collapse)
  show ?thesis
  proof (cases r)
    case (Inl e)
    then show ?thesis using reg by (simp add: execute_parallel_browser_tasks_def Let_def)
  next
    case (Inr sess)
    obtain agents rt2 state2 where
      cr: "create_agents env (zip (enumerate 0 (browser_tasks state)) sess) [] rt1 state = (agents, rt2, state2)"
      by (metis prod.collapse)
    have s2: "stopped state2 = stopped state"
      using create_agents_stopped [of env "zip (enumerate 0 (browser_tasks state)) sess" "[]" rt1 state] cr
      by simp
    show ?thesis
      using reg Inr cr s2 process_histories_stopped [of "zip (enumerate 0 (browser_tasks state)) agents" "[]" state2]
      by (simp add: execute_parallel_browser_tasks_def Let_def)
  qed
qed

lemma single_failed_stopped:
  "stopped (snd (single_failed aid t e results state)) = stopped state"
  by (simp add: single_failed_def Let_def split: sum.splits)

lemma single_step_stopped:
  "stopped (snd (snd (single_step env i t results rt state))) = stopped state"
  by (simp add: single_step_def Let_def single_failed_stopped
      split: sum.splits run_outcome.splits)

lemma execute_single_loop_stopped:
  "stopped (snd (snd (execute_single_loop env xs results rt state))) = stopped state"
proof (induction xs arbitrary: results rt state)
  case Nil
  then show ?case by simp
next
  case (Cons x xs)
  obtain i t where x: "x = (i, t)" by (metis prod.collapse)
  obtain r rt1 s1 where st: "single_step env i t results rt state = (r, rt1, s1)"
    by (metis prod.collapse)
  have s1: "stopped s1 = stopped state"
    using single_step_stopped [of env i t results rt state] st by simp
  show ?case unfolding x using st s1 Cons.IH
    by (simp split: option.splits sum.splits)
qed

lemma execute_tab_based_stopped:
  "stopped (snd (snd (execute_tab_based_browser_tasks env rt state))) = stopped state"
  by (simp add: execute_tab_based_browser_tasks_def execute_single_browser_tasks_def
      execute_single_loop_stopped execute_parallel_stopped Let_def)

lemma browser_task_execution_node_stopped:
  "stopped (snd (snd (browser_task_execution_node_impl env rt state))) = stopped state"
proof -
  let ?s = "log_agent_activity state ''browser_task_executor'' ''working''
              (''Executing '' @ str_nat (length (browser_tasks state)) @ '' browser tasks'')"
  obtain r rt1 s1 where ex: "execute_tab_based_browser_tasks env rt ?s = (r, rt1, s1)"
    by (metis prod.collapse)
  have "stopped s1 = stopped state"
    using execute_tab_based_stopped [of env rt ?s] ex by simp
  then show ?thesis
    using ex by (simp add: browser_task_execution_node_impl_def Let_def split: sum.splits)
qed

lemma report_task_execution_node_stopped:
  "stopped (snd (snd (report_task_execution_node_impl env rt state))) = stopped state"
  by (simp add: report_task_execution_node_impl_def Let_def split: sum.splits)

lemma note_todos_stopped: "stopped (note_todos env name state) = stopped state"
  by (simp add: note_todos_def split: option.splits)

lemma record_action_result_stopped: "stopped (record_action_result res state) = stopped state"
  by (simp add: record_action_result_def Let_def)

lemma process_actions_stopped:
  "stopped (snd (process_actions env as state)) = stopped state"
proof (induction env as state rule: process_actions.induct)
  case (5 env name rest state)
  then show ?case
    by (simp add: note_todos_stopped record_action_result_stopped split: sum.splits)
qed (simp_all add: Let_def)

lemma planning_try_stopped:
  "stopped (snd (planning_try env state)) = stopped state"
  by (simp add: planning_try_def Let_def process_actions_stopped split: sum.splits)

lemma vibesurf_agent_node_stopped:
  "stopped (snd (snd (vibesurf_agent_node_impl env rt state))) = stopped state"
proof -
  have pf: "stopped (planning_failed e s) = stopped s" for e s
    by (simp add: planning_failed_def Let_def)
  have pt: "planning_try env s = (r, s') \<Longrightarrow> stopped s' = stopped s" for s r s'
    using planning_try_stopped [of env s] by simp
  show ?thesis
    by (auto simp add: vibesurf_agent_node_impl_def Let_def pf
        split: sum.splits option.splits prod.splits dest!: pt)
qed

lemma asyncio_sleep_keeps_stopped: "stopped s \<Longrightarrow> stopped (asyncio_sleep s ops)"
  unfolding asyncio_sleep_def
proof (induction ops arbitrary: s)
  case Nil
  then show ?case by simp
next
  case (Cons x xs)
  have "stopped (apply_ctl s x)" using Cons.prems by (cases x) simp_all
  then show ?case using Cons.IH by simp
qed

lemma gate_skips_stopped: "stopped s \<Longrightarrow> control_aware_node node_func s sched = Skipped s 0"
  by (simp add: control_aware_node_def)

lemma ainvoke_stopped:
  "stopped state \<Longrightarrow>
     (\<exists>name'. fst (ainvoke env k name rt state) = OutOfSteps name' state)
     \<or> fst (ainvoke env k name rt state) = Finished state"
proof (induction k arbitrary: name)
  case 0
  then show ?case by simp
next
  case (Suc k)
  show ?case
  proof (cases "conditional_edge name state = ''END''")
    case True
    then show ?thesis using Suc.prems by (simp add: gate_skips_stopped)
  next
    case False
    then show ?thesis
      using Suc.prems Suc.IH [OF Suc.prems, of "conditional_edge name state"]
      by (simp add: gate_skips_stopped)
  qed
qed

text \<open>
  Claim C9. If \<open>stopped\<close> holds before an operation, it holds after it, for every
  operation of the system. The wrapper entered with \<open>stopped\<close> set returns the state as
  it is, whatever the node and the schedule; the control operations that land during a
  sleep keep the flag; each of the three node implementations returns a state with the
  flag set, for all collaborators, whether it returns or raises; a run of the graph
  from any node ends or is cut off in the very state it started in; and on a controller
  whose current state is this one, \<^verbatim>\<open>stop\<close>, \<^verbatim>\<open>pause\<close> and \<^verbatim>\<open>resume\<close> leave a current
  state with the flag set, while \<^verbatim>\<open>pause_agent\<close> and \<^verbatim>\<open>resume_agent\<close> leave the current
  state as it is.
\<close>

theorem stopped_is_monotonic:
  assumes "stopped state"
  shows "control_aware_node node_func state sched = Skipped state 0
    \<and> stopped (asyncio_sleep state ops)
    \<and> stopped (snd (snd (vibesurf_agent_node_impl env rt state)))
    \<and> stopped (snd (snd (browser_task_execution_node_impl env rt state)))
    \<and> stopped (snd (snd (report_task_execution_node_impl env rt state)))
    \<and> ((\<exists>name'. fst (ainvoke env k name rt state) = OutOfSteps name' state)
        \<or> fst (ainvoke env k name rt state) = Finished state)
    \<and> (current_state self = Some state \<longrightarrow>
          map_option stopped (current_state (snd (stop self reason awaited))) = Some True
        \<and> map_option stopped (current_state (snd (pause self reason))) = Some True
        \<and> map_option stopped (current_state (snd (resume self reason))) = Some True
        \<and> current_state (snd (snd (pause_agent self aid reason))) = Some state
        \<and> current_state (snd (snd (resume_agent self aid reason))) = Some state)"
proof -
  have gate: "control_aware_node node_func state sched = Skipped state 0"
    using assms by (rule gate_skips_stopped)
  have sleep: "stopped (asyncio_sleep state ops)"
    using assms by (rule asyncio_sleep_keeps_stopped)
  have nodes: "stopped (snd (snd (vibesurf_agent_node_impl env rt state)))"
    "stopped (snd (snd (browser_task_execution_node_impl env rt state)))"
    "stopped (snd (snd (report_task_execution_node_impl env rt state)))"
    using assms
    by (simp_all add: vibesurf_agent_node_stopped browser_task_execution_node_stopped
        report_task_execution_node_stopped)
  have run: "(\<exists>name'. fst (ainvoke env k name rt state) = OutOfSteps name' state)
        \<or> fst (ainvoke env k name rt state) = Finished state"
    using assms by (rule ainvoke_stopped)
  have ctl: "map_option stopped (current_state (snd (stop self reason awaited))) = Some True
        \<and> map_option stopped (current_state (snd (pause self reason))) = Some True
        \<and> map_option stopped (current_state (snd (resume self reason))) = Some True
        \<and> current_state (snd (snd (pause_agent self aid reason))) = Some state
        \<and> current_state (snd (snd (resume_agent self aid reason))) = Some state"
    if "current_state self = Some state"
    using that assms
    by (simp add: stop_def pause_def resume_def pause_agent_def resume_agent_def Let_def
        split: option.splits hook.splits)
  show ?thesis using gate sleep nodes run ctl by blast
qed

theorem stopped_is_monotonic_witness:
  "control_aware_node (\<lambda>s. s\<lparr>stopped := False\<rparr>)
     ((initial_state ''t'' [] ''sid'' ''0001'')\<lparr>stopped := True, paused := True\<rparr>) [[CtlResume]]
   = Skipped ((initial_state ''t'' [] ''sid'' ''0001'')\<lparr>stopped := True, paused := True\<rparr>) 0
   \<and> map_option stopped (current_state (snd (resume
        \<lparr>current_state = Some ((initial_state ''t'' [] ''sid'' ''0001'')\<lparr>stopped := True, paused := True\<rparr>),
         running_agents = [], agent_message_history = [], execution_task = True\<rparr> None))) = Some True"
proof -
  let ?s = "(initial_state ''t'' [] ''sid'' ''0001'')\<lparr>stopped := True, paused := True\<rparr>"
  let ?self = "\<lparr>current_state = Some ?s, running_agents = [], agent_message_history = [],
                execution_task = True\<rparr>"
  have a: "stopped ?s" by simp
  have b: "current_state ?self = Some ?s" by simp
  show ?thesis
    using stopped_is_monotonic [OF a, of "\<lambda>s. s\<lparr>stopped := False\<rparr>" "[[CtlResume]]" "[]" quiet_env
        empty_runtime 0 "''vibesurf_agent''" ?self None None "''w1''"] b
    by blast
qed

subsection \<open>Which path the dispatcher takes\<close>

lemma new_single_agent_session:
  "new_single_agent env state i t = Inr a \<Longrightarrow> browser_session a = MainSession"
  by (auto simp add: new_single_agent_def split: sum.splits)

lemma new_single_agent_plain:
  assumes "upload_files state = []"
    and "BrowserUseAgent_init env (task_id state @ ''-'' @ str_nat i) = Inr b"
  shows "new_single_agent env state i t =
         Inr \<lparr>bu_task = task_description t, browser_session = MainSession,
              bu_task_id = task_id state @ ''-'' @ str_nat i, acts = b\<rparr>"
  using assms by (simp add: new_single_agent_def single_bu_task_def)

lemma single_step_started_cases:
  "started (fst (snd (single_step env i t results rt state))) =
     started rt @
       (case new_single_agent env
               (log_agent_activity state (single_agent_name state) ''working'' (task_description t))
               i t of
          Inl e \<Rightarrow> []
        | Inr a \<Rightarrow> [a])"
  by (simp add: single_step_def Let_def split: sum.splits run_outcome.splits)

lemma single_step_started:
  "started (fst (snd (single_step env i t results rt state))) = started rt
   \<or> (\<exists>a. started (fst (snd (single_step env i t results rt state))) = started rt @ [a]
         \<and> browser_session a = MainSession)"
proof (cases "new_single_agent env
    (log_agent_activity state (single_agent_name state) ''working'' (task_description t)) i t")
  case (Inl e)
  then show ?thesis using single_step_started_cases [of env i t results rt state] by simp
next
  case (Inr a)
  then show ?thesis
    using single_step_started_cases [of env i t results rt state] new_single_agent_session [OF Inr]
    by simp
qed

lemma single_step_runs_worker:
  assumes "upload_files state = []"
    and "BrowserUseAgent_init env (task_id state @ ''-'' @ str_nat i) = Inr b"
  shows "started (fst (snd (single_step env i t results rt state))) =
         started rt @ [\<lparr>bu_task = task_description t, browser_session = MainSession,
                         bu_task_id = task_id state @ ''-'' @ str_nat i, acts = b\<rparr>]"
proof -
  let ?s = "log_agent_activity state (single_agent_name state) ''working'' (task_description t)"
  have "new_single_agent env ?s i t =
      Inr \<lparr>bu_task = task_description t, browser_session = MainSession,
           bu_task_id = task_id state @ ''-'' @ str_nat i, acts = b\<rparr>"
    using new_single_agent_plain [of ?s env i b t] assms by simp
  then show ?thesis using single_step_started_cases [of env i t results rt state] by simp
qed

lemma single_step_browser_manager:
  "browser_manager (fst (snd (single_step env i t results rt state))) = browser_manager rt"
  by (simp add: single_step_def Let_def split: sum.splits run_outcome.splits)

lemma execute_single_loop_sessions:
  "(\<forall>a \<in> set (started (fst (snd (execute_single_loop env xs results rt state)))).
      a \<in> set (started rt) \<or> browser_session a = MainSession)
   \<and> browser_manager (fst (snd (execute_single_loop env xs results rt state))) = browser_manager rt"
proof (induction xs arbitrary: results rt state)
  case Nil
  then show ?case by simp
next
  case (Cons x xs)
  obtain i t where x: "x = (i, t)" by (metis prod.collapse)
  obtain r rt1 s1 where st: "single_step env i t results rt state = (r, rt1, s1)"
    by (metis prod.collapse)
  have one: "started rt1 = started rt \<or> (\<exists>a. started rt1 = started rt @ [a] \<and> browser_session a = MainSession)"
    using single_step_started [of env i t results rt state] st by simp
  have bm: "browser_manager rt1 = browser_manager rt"
    using single_step_browser_manager [of env i t results rt state] st by simp
  have here: "\<forall>a \<in> set (started rt1). a \<in> set (started rt) \<or> browser_session a = MainSession"
    using one by auto
  show ?case
  proof (cases "focus_task env t")
    case (Some e)
    then show ?thesis unfolding x by simp
  next
    case None
    show ?thesis
    proof (cases r)
      case (Inl e)
      then show ?thesis unfolding x using None st here bm by simp
    next
      case (Inr res)
      have rest: "(\<forall>a \<in> set (started (fst (snd (execute_single_loop env xs res rt1 s1)))).
          a \<in> set (started rt1) \<or> browser_session a = MainSession)
        \<and> browser_manager (fst (snd (execute_single_loop env xs res rt1 s1))) = browser_manager rt1"
        by (rule Cons.IH)
      have eq: "execute_single_loop env (x # xs) results rt state = execute_single_loop env xs res rt1 s1"
        unfolding x using None st Inr by simp
      show ?thesis unfolding eq using rest here bm by auto
    qed
  qed
qed

lemma register_successes:
  "first_failure (map (register_one env state) xs) = None \<Longrightarrow>
   successes (map (register_one env state) xs) =
     map (\<lambda>it. (parallel_agent_id state (fst it), target_id (snd it))) xs"
proof (induction xs)
  case Nil
  then show ?case by simp
next
  case (Cons x xs)
  show ?case
  proof (cases "register_agent env (parallel_agent_id state (fst x)) (target_id (snd x))")
    case None
    then have r: "register_one env state x = Inr (parallel_agent_id state (fst x), target_id (snd x))"
      by (simp add: register_one_def)
    then show ?thesis using Cons by simp
  next
    case (Some e)
    then have "register_one env state x = Inl e" by (simp add: register_one_def)
    then show ?thesis using Cons.prems by simp
  qed
qed

lemma register_all_sessions:
  assumes "register_all env rt state = (Inr sess, rt1)"
  shows "sess = map (\<lambda>it. AgentSession (parallel_agent_id state (fst it))) (enumerate 0 (browser_tasks state))"
    and "started rt1 = started rt"
proof -
  let ?outs = "map (register_one env state) (enumerate 0 (browser_tasks state))"
  have g: "gather ?outs = Inr (map (\<lambda>it. (parallel_agent_id state (fst it), target_id (snd it)))
      (enumerate 0 (browser_tasks state))) \<or> (\<exists>e. gather ?outs = Inl e)"
  proof (cases "first_failure ?outs")
    case None
    then show ?thesis using register_successes [OF None] by (simp add: gather_def)
  next
    case (Some e)
    then show ?thesis by (simp add: gather_def)
  qed
  show "sess = map (\<lambda>it. AgentSession (parallel_agent_id state (fst it))) (enumerate 0 (browser_tasks state))"
    using assms g by (auto simp add: register_all_def Let_def comp_def split: sum.splits)
  show "started rt1 = started rt"
    using assms by (auto simp add: register_all_def Let_def split: sum.splits)
qed

lemma register_all_never_fails:
  assumes "\<forall>aid target. register_agent env aid target = None"
  shows "\<exists>sess rt1. register_all env rt state = (Inr sess, rt1)"
proof -
  have "first_failure (map (register_one env state) xs) = None" for xs
    using assms by (induction xs) (simp_all add: register_one_def)
  then show ?thesis by (simp add: register_all_def Let_def gather_def)
qed

lemma execute_single_one_task:
  assumes "browser_tasks state = [t]"
    and "upload_files state = []"
    and "focus_task env t = None"
    and "BrowserUseAgent_init env (task_id state @ ''-'' @ str_nat 0) = Inr b"
  shows "started (fst (snd (execute_single_browser_tasks env rt state))) =
         started rt @ [\<lparr>bu_task = task_description t, browser_session = MainSession,
                         bu_task_id = task_id state @ ''-'' @ str_nat 0, acts = b\<rparr>]"
proof -
  obtain r rt1 s1 where st: "single_step env 0 t [] rt state = (r, rt1, s1)"
    by (metis prod.collapse)
  have one: "started rt1 = started rt @ [\<lparr>bu_task = task_description t, browser_session = MainSession,
      bu_task_id = task_id state @ ''-'' @ str_nat 0, acts = b\<rparr>]"
    using single_step_runs_worker [OF assms(2) assms(4), of t "[]" rt] st by simp
  have "fst (snd (execute_single_browser_tasks env rt state)) = rt1"
    using assms(1) assms(3) st
    by (cases r) (simp_all add: execute_single_browser_tasks_def enumerate_eq_zip)
  then show ?thesis using one by simp
qed

lemma new_parallel_agent_session:
  "new_parallel_agent env state i t sess = Inr a \<Longrightarrow> browser_session a = sess"
  by (auto simp add: new_parallel_agent_def split: sum.splits)

lemma new_parallel_agent_plain:
  assumes "upload_files state = []"
  shows "new_parallel_agent env state i t sess =
         (case BrowserUseAgent_init env (task_id state @ ''-'' @ str_nat (i + 1)) of
            Inl e \<Rightarrow> Inl e
          | Inr b \<Rightarrow>
              Inr \<lparr>bu_task = task_description t, browser_session = sess,
                   bu_task_id = task_id state @ ''-'' @ str_nat (i + 1), acts = b\<rparr>)"
  using assms by (simp add: new_parallel_agent_def parallel_bu_task_def)

lemma create_agents_sessions:
  "\<forall>a \<in> set (fst (create_agents env xs agents rt state)).
     a \<in> set agents \<or> browser_session a \<in> snd ` set xs"
proof (induction xs arbitrary: agents rt state)
  case Nil
  then show ?case by simp
next
  case (Cons x xs)
  obtain i t sess where x: "x = ((i, t), sess)" by (metis prod.collapse)
  let ?s = "log_agent_activity state (parallel_agent_name state i) ''working'' (task_description t)"
  show ?case
  proof (cases "new_parallel_agent env ?s i t sess")
    case (Inl e)
    then show ?thesis unfolding x using Cons.IH by (fastforce simp add: Let_def)
  next
    case (Inr a)
    have "browser_session a = sess" using new_parallel_agent_session [OF Inr] .
    then show ?thesis unfolding x using Inr Cons.IH by (fastforce simp add: Let_def)
  qed
qed

lemma create_agents_workers:
  assumes "upload_files state = []"
  shows "fst (create_agents env xs agents rt state) =
         agents @ List.map_filter
           (\<lambda>x. case BrowserUseAgent_init env (task_id state @ ''-'' @ str_nat (fst (fst x) + 1)) of
                   Inl e \<Rightarrow> None
                 | Inr b \<Rightarrow>
                     Some \<lparr>bu_task = task_description (snd (fst x)), browser_session = snd x,
                           bu_task_id = task_id state @ ''-'' @ str_nat (fst (fst x) + 1),
                           acts = b\<rparr>) xs"
  using assms
proof (induction xs arbitrary: agents rt state)
  case Nil
  then show ?case by simp
next
  case (Cons x xs)
  obtain i t sess where x: "x = ((i, t), sess)" by (metis prod.collapse)
  let ?s = "log_agent_activity state (parallel_agent_name state i) ''working'' (task_description t)"
  let ?w = "\<lambda>st x. case BrowserUseAgent_init env (task_id st @ ''-'' @ str_nat (fst (fst x) + 1)) of
                   Inl e \<Rightarrow> None
                 | Inr b \<Rightarrow>
                     Some \<lparr>bu_task = task_description (snd (fst x)), browser_session = snd x,
                           bu_task_id = task_id st @ ''-'' @ str_nat (fst (fst x) + 1),
                           acts = b\<rparr>"
  have up: "upload_files ?s = []" using Cons.prems by simp
  show ?case
  proof (cases "BrowserUseAgent_init env (task_id state @ ''-'' @ str_nat (i + 1))")
    case (Inl e)
    let ?s' = "log_agent_activity ?s (parallel_agent_name ?s i) ''error'' (''Failed to create agent: '' @ e)"
    have up': "upload_files ?s' = []" using Cons.prems by simp
    have new: "new_parallel_agent env ?s i t sess = Inl e"
      using new_parallel_agent_plain [OF up, of env i t sess] Inl by simp
    have step: "create_agents env (((i, t), sess) # xs) agents rt state =
        create_agents env xs agents rt ?s'"
      using new by (simp add: Let_def)
    have same: "?w ?s' = ?w state" by (simp cong: sum.case_cong)
    have here: "List.map_filter (?w state) (((i, t), sess) # xs) = List.map_filter (?w state) xs"
      using Inl by simp
    have "fst (create_agents env xs agents rt ?s') = agents @ List.map_filter (?w ?s') xs"
      using Cons.IH [OF up'] .
    then show ?thesis unfolding x step here same .
  next
    case (Inr b)
    let ?a = "\<lparr>bu_task = task_description t, browser_session = sess,
             bu_task_id = task_id state @ ''-'' @ str_nat (i + 1), acts = b\<rparr>"
    let ?rt = "if vibesurf_agent ?s
               then rt\<lparr>registry := AList.update (parallel_agent_id ?s i) ?a (registry rt)\<rparr>
               else rt"
    have new: "new_parallel_agent env ?s i t sess = Inr ?a"
      using new_parallel_agent_plain [OF up, of env i t sess] Inr by simp
    have step: "create_agents env (((i, t), sess) # xs) agents rt state =
        create_agents env xs (agents @ [?a]) ?rt ?s"
      using new by (simp add: Let_def)
    have same: "?w ?s = ?w state" by (simp cong: sum.case_cong)
    have here: "List.map_filter (?w state) (((i, t), sess) # xs) = ?a # List.map_filter (?w state) xs"
      using Inr by simp
    have "fst (create_agents env xs (agents @ [?a]) ?rt ?s) = (agents @ [?a]) @ List.map_filter (?w ?s) xs"
      using Cons.IH [OF up] .
    then show ?thesis unfolding x step here same by simp
  qed
qed

lemma create_agents_all:
  assumes "upload_files state = []"
    and "\<forall>tid. \<exists>b. BrowserUseAgent_init env tid = Inr b"
  shows "map browser_session (fst (create_agents env xs agents rt state)) =
         map browser_session agents @ map snd xs"
proof -
  have "map browser_session (List.map_filter
           (\<lambda>x. case BrowserUseAgent_init env (task_id state @ ''-'' @ str_nat (fst (fst x) + 1)) of
                   Inl e \<Rightarrow> None
                 | Inr b \<Rightarrow>
                     Some \<lparr>bu_task = task_description (snd (fst x)), browser_session = snd x,
                           bu_task_id = task_id state @ ''-'' @ str_nat (fst (fst x) + 1),
                           acts = b\<rparr>) ys) = map snd ys" for ys :: "((nat \<times> task) \<times> session) list"
  proof (induction ys)
    case Nil
    then show ?case by simp
  next
    case (Cons y ys)
    obtain b where "BrowserUseAgent_init env (task_id state @ ''-'' @ str_nat (fst (fst y) + 1)) = Inr b"
      using assms(2) by blast
    then show ?case using Cons by simp
  qed
  then show ?thesis using create_agents_workers [OF assms(1), of env xs agents rt] by simp
qed

lemma create_agents_started:
  "started (fst (snd (create_agents env xs agents rt state))) = started rt"
proof (induction xs arbitrary: agents rt state)
  case Nil
  then show ?case by simp
next
  case (Cons x xs)
  obtain i t sess where x: "x = ((i, t), sess)" by (metis prod.collapse)
  show ?case unfolding x using Cons.IH by (simp add: Let_def split: sum.splits)
qed

lemma cleanup_started: "started (cleanup state xs rt) = started rt"
proof (induction xs arbitrary: rt)
  case Nil
  then show ?case by simp
next
  case (Cons x xs)
  obtain i t where x: "x = (i, t)" by (metis prod.collapse)
  show ?case unfolding x using Cons.IH by (simp add: Let_def)
qed

lemma execute_parallel_started_failed:
  assumes "register_all env rt state = (Inl e, rt1)"
  shows "started (fst (snd (execute_parallel_browser_tasks env rt state))) = started rt"
  using assms
  by (auto simp add: execute_parallel_browser_tasks_def register_all_def Let_def split: sum.splits)

lemma execute_parallel_started_ok:
  assumes "register_all env rt state = (Inr sess, rt1)"
  shows "started (fst (snd (execute_parallel_browser_tasks env rt state))) =
         started rt @ fst (create_agents env (zip (enumerate 0 (browser_tasks state)) sess) [] rt1 state)"
proof -
  obtain agents rt2 state2 where
    cr: "create_agents env (zip (enumerate 0 (browser_tasks state)) sess) [] rt1 state = (agents, rt2, state2)"
    by (metis prod.collapse)
  have s2: "started rt2 = started rt"
    using create_agents_started [of env "zip (enumerate 0 (browser_tasks state)) sess" "[]" rt1 state]
      cr register_all_sessions(2) [OF assms] by simp
  show ?thesis
    using assms cr s2 by (simp add: execute_parallel_browser_tasks_def Let_def cleanup_started)
qed

lemma digit_char_inj: "a < 10 \<Longrightarrow> b < 10 \<Longrightarrow> digit_char a = digit_char b \<Longrightarrow> a = b"
proof -
  have d: "distinct ''0123456789''" by simp
  have l: "length ''0123456789'' = 10" by simp
  show "a < 10 \<Longrightarrow> b < 10 \<Longrightarrow> digit_char a = digit_char b \<Longrightarrow> a = b"
    unfolding digit_char_def using nth_eq_iff_index_eq [OF d, of a b] l by metis
qed

lemma str_nat_small: "n < 10 \<Longrightarrow> str_nat n = [digit_char n]"
  by (subst str_nat.simps) simp

lemma str_nat_large: "\<not> n < 10 \<Longrightarrow> str_nat n = str_nat (n div 10) @ [digit_char (n mod 10)]"
  by (subst str_nat.simps) simp

lemma str_nat_nonempty: "str_nat n \<noteq> []"
  by (cases "n < 10") (simp_all add: str_nat_small str_nat_large)

lemma str_nat_inj: "str_nat n = str_nat m \<Longrightarrow> n = m"
proof (induction n arbitrary: m rule: str_nat.induct)
  case (1 n)
  show ?case
  proof (cases "n < 10")
    case True
    show ?thesis
    proof (cases "m < 10")
      case mt: True
      then show ?thesis using True "1.prems" digit_char_inj [of n m]
        by (simp add: str_nat_small)
    next
      case False
      then show ?thesis using True "1.prems" str_nat_nonempty [of "m div 10"]
        by (simp add: str_nat_small str_nat_large)
    qed
  next
    case False
    show ?thesis
    proof (cases "m < 10")
      case True
      then show ?thesis using False "1.prems" str_nat_nonempty [of "n div 10"]
        by (simp add: str_nat_small str_nat_large)
    next
      case mf: False
      have eq: "str_nat (n div 10) = str_nat (m div 10)"
        "digit_char (n mod 10) = digit_char (m mod 10)"
        using False mf "1.prems" by (simp_all add: str_nat_large)
      have q: "n div 10 = m div 10" using "1.IH" [OF False eq(1)] .
      have r: "n mod 10 = m mod 10" using digit_char_inj [OF _ _ eq(2)] by simp
      show ?thesis using q r by (metis div_mult_mod_eq)
    qed
  qed
qed

lemma parallel_agent_id_inj: "parallel_agent_id state i = parallel_agent_id state j \<Longrightarrow> i = j"
proof -
  assume "parallel_agent_id state i = parallel_agent_id state j"
  then have "str_nat (i + 1) @ (''-'' @ task_id_suffix state) = str_nat (j + 1) @ (''-'' @ task_id_suffix state)"
    by (simp add: parallel_agent_id_def)
  then have "str_nat (i + 1) = str_nat (j + 1)" by (simp only: append_same_eq)
  then show "i = j" using str_nat_inj [of "i + 1" "j + 1"] by simp
qed

lemma map_fst_enumerate_zero: "map fst (enumerate 0 xs) = [0..<length xs]"
  by (simp add: enumerate_eq_zip)

lemma zip_with_sessions:
  "zip xs (map f xs) = map (\<lambda>x. (x, f x)) xs"
  by (induction xs) simp_all

lemma map_filter_of_map: "List.map_filter f (map g xs) = List.map_filter (\<lambda>x. f (g x)) xs"
  by (induction xs) (simp_all split: option.splits)

text \<open>
  Claim C6 says that a list of length 1 takes the single path on the shared handle
  and a longer list the parallel path with one isolated worker per task. The choice of
  the path is as stated, but the parallel path does not give every task a worker: a
  worker whose constructor raises is logged and skipped. Evaluated on the two
  descriptors \<^verbatim>\<open>"a"\<close> and \<^verbatim>\<open>"b"\<close> where the constructor of the first worker raises: the
  parallel path is taken and a single worker is started, the one for \<^verbatim>\<open>"b"\<close>.
\<close>

theorem dispatch_one_worker_per_task_counterexample:
  "length (browser_tasks
      ((initial_state ''t'' [] ''sid'' ''0001'')\<lparr>browser_tasks := [TaskStr ''a'', TaskStr ''b'']\<rparr>)) = 2
   \<and> execute_tab_based_browser_tasks first_constructor_fails empty_runtime
        ((initial_state ''t'' [] ''sid'' ''0001'')\<lparr>browser_tasks := [TaskStr ''a'', TaskStr ''b'']\<rparr>)
      = execute_parallel_browser_tasks first_constructor_fails empty_runtime
          ((initial_state ''t'' [] ''sid'' ''0001'')\<lparr>browser_tasks := [TaskStr ''a'', TaskStr ''b'']\<rparr>)
   \<and> map bu_task (started (fst (snd (execute_tab_based_browser_tasks first_constructor_fails
        empty_runtime
        ((initial_state ''t'' [] ''sid'' ''0001'')\<lparr>browser_tasks := [TaskStr ''a'', TaskStr ''b'']\<rparr>)))))
      = [''b'']
   \<and> length (started (fst (snd (execute_tab_based_browser_tasks first_constructor_fails
        empty_runtime
        ((initial_state ''t'' [] ''sid'' ''0001'')\<lparr>browser_tasks := [TaskStr ''a'', TaskStr ''b'']\<rparr>)))))
      \<noteq> length (browser_tasks
          ((initial_state ''t'' [] ''sid'' ''0001'')\<lparr>browser_tasks := [TaskStr ''a'', TaskStr ''b'']\<rparr>))"
  by code_simp

text \<open>
  Claim C6, amended. The dispatcher chooses by the length of the descriptor list and by
  nothing else: for all collaborators, runtime objects and states, a list of length
  exactly 1 is handed to \<^verbatim>\<open>execute_single_browser_tasks\<close> and a list of length 2 or more
  to \<^verbatim>\<open>execute_parallel_browser_tasks\<close>.

  On the single path every worker that is started is bound to the shared main
  session and the browser manager is left as it was (no isolated session is
  acquired); and when no files are uploaded, the focus call returns and the
  constructor returns, exactly one worker is started for the task, on the main
  session, with the task's description.

  On the parallel path every worker that is started is bound to the isolated session
  registered for one of the tasks, and the sessions of the tasks are pairwise
  distinct; and when no files are uploaded and every registration returns, the workers
  started are, in task order, one for each task whose constructor returns, each with
  its task's description and bound to the session registered under that task's own
  agent id, while a task whose constructor raises gets no worker. So exactly one worker
  per task is started when, in addition, no constructor raises.
\<close>

theorem dispatch_path_selection:
  "(length (browser_tasks state) = 1 \<longrightarrow>
      execute_tab_based_browser_tasks env rt state = execute_single_browser_tasks env rt state
      \<and> (\<forall>a \<in> set (started (fst (snd (execute_tab_based_browser_tasks env rt state)))).
            a \<in> set (started rt) \<or> browser_session a = MainSession)
      \<and> browser_manager (fst (snd (execute_tab_based_browser_tasks env rt state))) = browser_manager rt
      \<and> (upload_files state = [] \<and> focus_task env (browser_tasks state ! 0) = None
           \<and> BrowserUseAgent_init env (task_id state @ ''-'' @ str_nat 0) = Inr b \<longrightarrow>
          started (fst (snd (execute_tab_based_browser_tasks env rt state))) =
          started rt @ [\<lparr>bu_task = task_description (browser_tasks state ! 0),
                          browser_session = MainSession,
                          bu_task_id = task_id state @ ''-'' @ str_nat 0, acts = b\<rparr>]))
   \<and> (2 \<le> length (browser_tasks state) \<longrightarrow>
      execute_tab_based_browser_tasks env rt state = execute_parallel_browser_tasks env rt state
      \<and> (\<forall>a \<in> set (started (fst (snd (execute_tab_based_browser_tasks env rt state)))).
            a \<in> set (started rt)
            \<or> (\<exists>i < length (browser_tasks state).
                  browser_session a = AgentSession (parallel_agent_id state i)))
      \<and> (upload_files state = [] \<and> (\<forall>aid target. register_agent env aid target = None) \<longrightarrow>
          started (fst (snd (execute_tab_based_browser_tasks env rt state))) =
          started rt @ List.map_filter
            (\<lambda>it. case BrowserUseAgent_init env (task_id state @ ''-'' @ str_nat (fst it + 1)) of
                     Inl e \<Rightarrow> None
                   | Inr b \<Rightarrow>
                       Some \<lparr>bu_task = task_description (snd it),
                             browser_session = AgentSession (parallel_agent_id state (fst it)),
                             bu_task_id = task_id state @ ''-'' @ str_nat (fst it + 1),
                             acts = b\<rparr>)
            (enumerate 0 (browser_tasks state)))
      \<and> (upload_files state = [] \<and> (\<forall>aid target. register_agent env aid target = None)
           \<and> (\<forall>tid. \<exists>b. BrowserUseAgent_init env tid = Inr b) \<longrightarrow>
          map browser_session
            (drop (length (started rt))
               (started (fst (snd (execute_tab_based_browser_tasks env rt state))))) =
          map (\<lambda>i. AgentSession (parallel_agent_id state i)) [0..<length (browser_tasks state)])
      \<and> distinct (map (\<lambda>i. AgentSession (parallel_agent_id state i))
                    [0..<length (browser_tasks state)]))"
proof -
  let ?tasks = "enumerate 0 (browser_tasks state)"
  let ?sess = "map (\<lambda>it. AgentSession (parallel_agent_id state (fst it))) ?tasks"
  let ?worker = "\<lambda>it. case BrowserUseAgent_init env (task_id state @ ''-'' @ str_nat (fst it + 1)) of
                     Inl e \<Rightarrow> None
                   | Inr b \<Rightarrow>
                       Some \<lparr>bu_task = task_description (snd it),
                             browser_session = AgentSession (parallel_agent_id state (fst it)),
                             bu_task_id = task_id state @ ''-'' @ str_nat (fst it + 1),
                             acts = b\<rparr>"
  have single: "execute_tab_based_browser_tasks env rt state = execute_single_browser_tasks env rt state"
    if "length (browser_tasks state) = 1"
    using that by (simp add: execute_tab_based_browser_tasks_def)
  have parallel: "execute_tab_based_browser_tasks env rt state = execute_parallel_browser_tasks env rt state"
    if "2 \<le> length (browser_tasks state)"
    using that by (simp add: execute_tab_based_browser_tasks_def)
  have main: "(\<forall>a \<in> set (started (fst (snd (execute_single_browser_tasks env rt state)))).
            a \<in> set (started rt) \<or> browser_session a = MainSession)
      \<and> browser_manager (fst (snd (execute_single_browser_tasks env rt state))) = browser_manager rt"
    unfolding execute_single_browser_tasks_def by (rule execute_single_loop_sessions)
  have runs: "started (fst (snd (execute_single_browser_tasks env rt state))) =
          started rt @ [\<lparr>bu_task = task_description (browser_tasks state ! 0),
                          browser_session = MainSession,
                          bu_task_id = task_id state @ ''-'' @ str_nat 0, acts = b\<rparr>]"
    if one: "length (browser_tasks state) = 1"
      and up: "upload_files state = []"
      and focus: "focus_task env (browser_tasks state ! 0) = None"
      and ctor: "BrowserUseAgent_init env (task_id state @ ''-'' @ str_nat 0) = Inr b"
  proof -
    have "browser_tasks state = [browser_tasks state ! 0]"
      using one by (cases "browser_tasks state") simp_all
    then show ?thesis using execute_single_one_task [OF _ up focus ctor, of rt] by simp
  qed
  have bound: "\<forall>a \<in> set (started (fst (snd (execute_parallel_browser_tasks env rt state)))).
            a \<in> set (started rt)
            \<or> (\<exists>i < length (browser_tasks state).
                  browser_session a = AgentSession (parallel_agent_id state i))"
  proof
    fix a
    assume a: "a \<in> set (started (fst (snd (execute_parallel_browser_tasks env rt state))))"
    obtain r rt1 where reg: "register_all env rt state = (r, rt1)" by (metis prod.collapse)
    show "a \<in> set (started rt)
        \<or> (\<exists>i < length (browser_tasks state). browser_session a = AgentSession (parallel_agent_id state i))"
    proof (cases r)
      case (Inl e)
      then show ?thesis using a reg execute_parallel_started_failed [of env rt state e rt1] by simp
    next
      case (Inr sess)
      have st: "started (fst (snd (execute_parallel_browser_tasks env rt state))) =
            started rt @ fst (create_agents env (zip ?tasks sess) [] rt1 state)"
        using reg Inr execute_parallel_started_ok [of env rt state sess rt1] by simp
      have sess: "sess = ?sess" using register_all_sessions(1) [of env rt state sess rt1] reg Inr by simp
      show ?thesis
      proof (cases "a \<in> set (started rt)")
        case True
        then show ?thesis by simp
      next
        case False
        then have "a \<in> set (fst (create_agents env (zip ?tasks ?sess) [] rt1 state))"
          using a st sess by simp
        then have "browser_session a \<in> snd ` set (zip ?tasks ?sess)"
          using create_agents_sessions [of env "zip ?tasks ?sess" "[]" rt1 state] by auto
        then obtain it where it: "it \<in> set ?tasks"
          and b: "browser_session a = AgentSession (parallel_agent_id state (fst it))"
          by (auto simp add: zip_with_sessions)
        have "fst it < length (browser_tasks state)"
          using it by (simp add: in_set_enumerate_eq)
        then show ?thesis using b by blast
      qed
    qed
  qed
  have workers: "started (fst (snd (execute_parallel_browser_tasks env rt state))) =
          started rt @ List.map_filter ?worker ?tasks"
    if up: "upload_files state = []"
      and r: "\<forall>aid target. register_agent env aid target = None"
  proof -
    obtain sess rt1 where reg: "register_all env rt state = (Inr sess, rt1)"
      using register_all_never_fails [OF r] by blast
    have sess: "sess = ?sess" using register_all_sessions(1) [OF reg] .
    have full: "started (fst (snd (execute_parallel_browser_tasks env rt state))) =
            started rt @ fst (create_agents env (zip ?tasks sess) [] rt1 state)"
      using reg by (rule execute_parallel_started_ok)
    have z: "zip ?tasks sess = map (\<lambda>it. (it, AgentSession (parallel_agent_id state (fst it)))) ?tasks"
      unfolding sess by (rule zip_with_sessions)
    have "fst (create_agents env (zip ?tasks sess) [] rt1 state) = List.map_filter ?worker ?tasks"
      by (simp only: create_agents_workers [OF up, of env "zip ?tasks sess" "[]" rt1])
         (simp add: z map_filter_of_map cong: sum.case_cong)
    then show ?thesis using full by simp
  qed
  have exact: "map browser_session
            (drop (length (started rt))
               (started (fst (snd (execute_parallel_browser_tasks env rt state))))) =
          map (\<lambda>i. AgentSession (parallel_agent_id state i)) [0..<length (browser_tasks state)]"
    if up: "upload_files state = []"
      and r: "\<forall>aid target. register_agent env aid target = None"
      and c: "\<forall>tid. \<exists>b. BrowserUseAgent_init env tid = Inr b"
  proof -
    obtain sess rt1 where reg: "register_all env rt state = (Inr sess, rt1)"
      using register_all_never_fails [OF r] by blast
    have sess: "sess = ?sess" using register_all_sessions(1) [OF reg] .
    have all: "map browser_session (fst (create_agents env (zip ?tasks sess) [] rt1 state)) = ?sess"
      using create_agents_all [OF up c, of "zip ?tasks sess" "[]" rt1] sess
      by (simp add: zip_with_sessions comp_def)
    have idx: "?sess = map (\<lambda>i. AgentSession (parallel_agent_id state i)) [0..<length (browser_tasks state)]"
      using map_fst_enumerate_zero [of "browser_tasks state"]
      by (metis (no_types, lifting) map_map comp_def map_eq_conv)
    have full: "started (fst (snd (execute_parallel_browser_tasks env rt state))) =
            started rt @ fst (create_agents env (zip ?tasks sess) [] rt1 state)"
      using reg by (rule execute_parallel_started_ok)
    show ?thesis using full all idx by simp
  qed
  have dist: "distinct (map (\<lambda>i. AgentSession (parallel_agent_id state i)) [0..<length (browser_tasks state)])"
    by (simp add: distinct_map inj_on_def) (metis parallel_agent_id_inj)
  show ?thesis
  proof (intro conjI impI)
    assume one: "length (browser_tasks state) = 1"
    show "execute_tab_based_browser_tasks env rt state = execute_single_browser_tasks env rt state"
      using single [OF one] .
    show "\<forall>a \<in> set (started (fst (snd (execute_tab_based_browser_tasks env rt state)))).
            a \<in> set (started rt) \<or> browser_session a = MainSession"
      using single [OF one] main by simp
    show "browser_manager (fst (snd (execute_tab_based_browser_tasks env rt state))) = browser_manager rt"
      using single [OF one] main by simp
  next
    assume one: "length (browser_tasks state) = 1"
      and h: "upload_files state = [] \<and> focus_task env (browser_tasks state ! 0) = None
           \<and> BrowserUseAgent_init env (task_id state @ ''-'' @ str_nat 0) = Inr b"
    show "started (fst (snd (execute_tab_based_browser_tasks env rt state))) =
          started rt @ [\<lparr>bu_task = task_description (browser_tasks state ! 0),
                          browser_session = MainSession,
                          bu_task_id = task_id state @ ''-'' @ str_nat 0, acts = b\<rparr>]"
      using single [OF one] runs [OF one] h by simp
  next
    assume two: "2 \<le> length (browser_tasks state)"
    show "execute_tab_based_browser_tasks env rt state = execute_parallel_browser_tasks env rt state"
      using parallel [OF two] .
    show "\<forall>a \<in> set (started (fst (snd (execute_tab_based_browser_tasks env rt state)))).
            a \<in> set (started rt)
            \<or> (\<exists>i < length (browser_tasks state).
                  browser_session a = AgentSession (parallel_agent_id state i))"
      using parallel [OF two] bound by simp
    show "distinct (map (\<lambda>i. AgentSession (parallel_agent_id state i))
                    [0..<length (browser_tasks state)])"
      using dist .
  next
    assume two: "2 \<le> length (browser_tasks state)"
      and h: "upload_files state = [] \<and> (\<forall>aid target. register_agent env aid target = None)"
    show "started (fst (snd (execute_tab_based_browser_tasks env rt state))) =
          started rt @ List.map_filter ?worker ?tasks"
      using parallel [OF two] workers h by simp
  next
    assume two: "2 \<le> length (browser_tasks state)"
      and h: "upload_files state = [] \<and> (\<forall>aid target. register_agent env aid target = None)
           \<and> (\<forall>tid. \<exists>b. BrowserUseAgent_init env tid = Inr b)"
    show "map browser_session
            (drop (length (started rt))
               (started (fst (snd (execute_tab_based_browser_tasks env rt state))))) =
          map (\<lambda>i. AgentSession (parallel_agent_id state i)) [0..<length (browser_tasks state)]"
      using parallel [OF two] exact h by simp
  qed
qed

theorem dispatch_path_selection_witness:
  "started (fst (snd (execute_tab_based_browser_tasks quiet_env empty_runtime
      ((initial_state ''t'' [] ''sid'' ''0001'')\<lparr>browser_tasks := [TaskStr ''open example.com'']\<rparr>))))
   = [\<lparr>bu_task = ''open example.com'', browser_session = MainSession, bu_task_id = ''0001-0'',
       acts = worker_ok\<rparr>]
   \<and> started (fst (snd (execute_tab_based_browser_tasks first_constructor_fails empty_runtime
       ((initial_state ''t'' [] ''sid'' ''0001'')\<lparr>browser_tasks := [TaskStr ''a'', TaskStr ''b'']\<rparr>))))
     = [\<lparr>bu_task = ''b'', browser_session = AgentSession ''agent-2-0001'', bu_task_id = ''0001-2'',
         acts = worker_ok\<rparr>]
   \<and> map browser_session
        (started (fst (snd (execute_tab_based_browser_tasks quiet_env empty_runtime
           ((initial_state ''t'' [] ''sid'' ''0001'')\<lparr>browser_tasks := [TaskStr ''a'', TaskStr ''b'']\<rparr>)))))
     = [AgentSession ''agent-1-0001'', AgentSession ''agent-2-0001'']"
proof -
  let ?one = "(initial_state ''t'' [] ''sid'' ''0001'')\<lparr>browser_tasks := [TaskStr ''open example.com'']\<rparr>"
  let ?two = "(initial_state ''t'' [] ''sid'' ''0001'')\<lparr>browser_tasks := [TaskStr ''a'', TaskStr ''b'']\<rparr>"
  let ?worker = "\<lambda>it. case BrowserUseAgent_init first_constructor_fails
                            (task_id ?two @ ''-'' @ str_nat (fst it + 1)) of
                     Inl e \<Rightarrow> None
                   | Inr b \<Rightarrow>
                       Some \<lparr>bu_task = task_description (snd it),
                             browser_session = AgentSession (parallel_agent_id ?two (fst it)),
                             bu_task_id = task_id ?two @ ''-'' @ str_nat (fst it + 1),
                             acts = b\<rparr>"
  have l1: "length (browser_tasks ?one) = 1" by simp
  have l2: "2 \<le> length (browser_tasks ?two)" by simp
  have u1: "upload_files ?one = []" by (simp add: initial_state_def)
  have u2: "upload_files ?two = []" by (simp add: initial_state_def)
  have f1: "focus_task quiet_env (browser_tasks ?one ! 0) = None"
    by (simp add: quiet_env_def activate_def)
  have c1: "BrowserUseAgent_init quiet_env (task_id ?one @ ''-'' @ str_nat 0) = Inr worker_ok"
    by (simp add: quiet_env_def)
  have r: "\<forall>aid target. register_agent quiet_env aid target = None" by (simp add: quiet_env_def)
  have r': "\<forall>aid target. register_agent first_constructor_fails aid target = None"
    by (simp add: first_constructor_fails_def quiet_env_def)
  have c: "\<forall>tid. \<exists>b. BrowserUseAgent_init quiet_env tid = Inr b" by (simp add: quiet_env_def)
  have e: "started empty_runtime = []" by (simp add: empty_runtime_def)
  have v1: "[\<lparr>bu_task = task_description (browser_tasks ?one ! 0), browser_session = MainSession,
              bu_task_id = task_id ?one @ ''-'' @ str_nat 0, acts = worker_ok\<rparr>]
      = [\<lparr>bu_task = ''open example.com'', browser_session = MainSession, bu_task_id = ''0001-0'',
          acts = worker_ok\<rparr>]"
    by (simp add: initial_state_def str_nat.simps digit_char_def)
  have v2: "List.map_filter ?worker (enumerate 0 (browser_tasks ?two))
      = [\<lparr>bu_task = ''b'', browser_session = AgentSession ''agent-2-0001'', bu_task_id = ''0001-2'',
          acts = worker_ok\<rparr>]"
    by code_simp
  have v3: "map (\<lambda>i. AgentSession (parallel_agent_id ?two i)) [0..<length (browser_tasks ?two)]
     = [AgentSession ''agent-1-0001'', AgentSession ''agent-2-0001'']"
    by code_simp
  have a: "started (fst (snd (execute_tab_based_browser_tasks quiet_env empty_runtime ?one))) =
      started empty_runtime @ [\<lparr>bu_task = task_description (browser_tasks ?one ! 0),
        browser_session = MainSession, bu_task_id = task_id ?one @ ''-'' @ str_nat 0,
        acts = worker_ok\<rparr>]"
    using dispatch_path_selection [of ?one quiet_env empty_runtime worker_ok] l1 u1 f1 c1 by blast
  have b: "started (fst (snd (execute_tab_based_browser_tasks first_constructor_fails empty_runtime ?two))) =
      started empty_runtime @ List.map_filter ?worker (enumerate 0 (browser_tasks ?two))"
    using dispatch_path_selection [of ?two first_constructor_fails empty_runtime] l2 u2 r' by blast
  have d: "map browser_session
        (drop (length (started empty_runtime))
           (started (fst (snd (execute_tab_based_browser_tasks quiet_env empty_runtime ?two))))) =
      map (\<lambda>i. AgentSession (parallel_agent_id ?two i)) [0..<length (browser_tasks ?two)]"
    using dispatch_path_selection [of ?two quiet_env empty_runtime] l2 u2 r c by blast
  show ?thesis
    unfolding a b using d e v1 v2 v3 by simp
qed

subsection \<open>The status reporter in general\<close>

text \<open>
  \<^verbatim>\<open>get_status\<close> never raises, and its overall status follows the priority chain idle,
  stopped, paused, running; the one state that the chain cannot report is the completed
  one, which comes out as \<^verbatim>\<open>"error"\<close>.
\<close>

lemma build_agent_statuses_returns:
  "\<exists>ags. build_agent_statuses cs xs acc = Inr ags"
proof (induction xs arbitrary: acc)
  case Nil
  then show ?case by simp
next
  case (Cons x xs)
  obtain aid agent where x: "x = (aid, agent)" by (metis prod.collapse)
  have "agent_status_of cs \<in> set status_literal"
    by (simp add: agent_status_of_def status_literal_def split: option.splits)
  then show ?case unfolding x using Cons.IH by (simp add: mk_AgentStatus_def)
qed

lemma get_status_never_raises: "\<exists>v. get_status self = Inr v"
proof (cases "get_status_body self")
  case (Inr v)
  then show ?thesis by (simp add: get_status_def)
next
  case (Inl e)
  obtain ags where "build_agent_statuses (current_state self) (running_agents self) [] = Inr ags"
    using build_agent_statuses_returns by blast
  then have "e = validation_error ''VibeSurfStatus'' ''overall_status''"
    using Inl by (simp add: get_status_body_def mk_VibeSurfStatus_def split: if_splits)
  then show ?thesis using Inl
    by (simp add: get_status_def validation_error_def mk_VibeSurfStatus_def status_literal_def)
qed

lemma get_status_priority_chain:
  "\<exists>v. get_status self = Inr v \<and> overall_status v =
     (case current_state self of
        None \<Rightarrow> ''idle''
      | Some s \<Rightarrow>
          if stopped s then ''stopped''
          else if paused s \<or> should_pause s then ''paused''
          else if is_complete s then ''error''
          else ''running'')"
proof -
  obtain ags where b: "build_agent_statuses (current_state self) (running_agents self) [] = Inr ags"
    using build_agent_statuses_returns by blast
  show ?thesis
    using b
    by (auto simp add: get_status_def get_status_body_def mk_VibeSurfStatus_def overall_of_def
        status_literal_def validation_error_def split: option.splits)
qed

subsection \<open>The handler of the planning node\<close>

text \<open>
  Whatever the state, an exception of the planner does not leave the planning node: the
  node returns with the final response carrying the text, the completion flag set, an
  error entry appended to the activity log, and the current step as it was.
\<close>

lemma planner_exception_is_caught:
  assumes "get_tabs env = Inr tabs" and "get_activate_tab env = Inr active"
    and "\<forall>history. llm_ainvoke env history = Inl (Exception e)"
  shows "\<exists>state'. vibesurf_agent_node_impl env rt state = (None, rt, state')
      \<and> final_response state' = Some (''Task execution failed: '' @ e)
      \<and> is_complete state'
      \<and> current_step state' = current_step state
      \<and> (\<exists>logs. activity_logs state' = logs @
            [\<lparr>agent_name = ''vibesurf_agent'', agent_status = ''error'',
              agent_msg = ''Agent failed: '' @ e\<rparr>])"
  using assms
  by (simp add: vibesurf_agent_node_impl_def planning_try_def planning_failed_def Let_def
      log_agent_activity_def)

subsection \<open>The cleanup of a parallel dispatch once registration has succeeded\<close>

text \<open>
  When no registration raises, the \<^verbatim>\<open>finally\<close> block runs whatever the workers and their
  constructors do, also under cancellation: afterwards no agent id of the dispatch is
  in the registry, no session of a task that is not a list is held, and
  \<^verbatim>\<open>unregister_agent\<close> has been called exactly once for each such task, in task order.
\<close>

lemma delete_key_set: "fst ` set (AList.delete k al) = fst ` set al - {k}"
proof -
  have "set (map fst (AList.delete k al)) = set (removeAll k (map fst al))"
    by (simp only: delete_keys)
  then show ?thesis by simp
qed

lemma cleanup_registry:
  "fst ` set (registry (cleanup state xs rt)) =
     fst ` set (registry rt)
       - (if vibesurf_agent state then (\<lambda>it. parallel_agent_id state (fst it)) ` set xs else {})"
proof (induction xs arbitrary: rt)
  case Nil
  then show ?case by simp
next
  case (Cons x xs)
  obtain i t where x: "x = (i, t)" by (metis prod.collapse)
  show ?case unfolding x by (auto simp add: Let_def Cons.IH delete_key_set)
qed

lemma cleanup_unregister_calls:
  "unregister_calls (browser_manager (cleanup state xs rt)) =
     unregister_calls (browser_manager rt)
       @ map (\<lambda>it. parallel_agent_id state (fst it)) (filter (\<lambda>it. \<not> is_list (snd it)) xs)"
proof (induction xs arbitrary: rt)
  case Nil
  then show ?case by simp
next
  case (Cons x xs)
  obtain i t where x: "x = (i, t)" by (metis prod.collapse)
  show ?case unfolding x by (simp add: Let_def Cons.IH unregister_agent_def)
qed

lemma cleanup_sessions:
  "fst ` set (sessions (browser_manager (cleanup state xs rt))) =
     fst ` set (sessions (browser_manager rt))
       - (\<lambda>it. parallel_agent_id state (fst it)) ` set (filter (\<lambda>it. \<not> is_list (snd it)) xs)"
proof (induction xs arbitrary: rt)
  case Nil
  then show ?case by simp
next
  case (Cons x xs)
  obtain i t where x: "x = (i, t)" by (metis prod.collapse)
  show ?case unfolding x by (auto simp add: Let_def Cons.IH unregister_agent_def delete_key_set)
qed

lemma create_agents_browser_manager:
  "browser_manager (fst (snd (create_agents env xs agents rt state))) = browser_manager rt"
proof (induction xs arbitrary: agents rt state)
  case Nil
  then show ?case by simp
next
  case (Cons x xs)
  obtain i t sess where x: "x = ((i, t), sess)" by (metis prod.collapse)
  show ?case unfolding x using Cons.IH by (simp add: Let_def split: sum.splits)
qed

lemma create_agents_only_logs:
  "\<exists>logs. snd (snd (create_agents env xs agents rt state)) = state\<lparr>activity_logs := logs\<rparr>"
proof (induction xs arbitrary: agents rt state)
  case Nil
  have "state = state\<lparr>activity_logs := activity_logs state\<rparr>" by simp
  then show ?case by (metis create_agents.simps(1) snd_conv)
next
  case (Cons x xs)
  obtain i t sess where x: "x = ((i, t), sess)" by (metis prod.collapse)
  have step: "\<exists>logs. snd (snd (create_agents env xs ags r (state\<lparr>activity_logs := l\<rparr>)))
      = state\<lparr>activity_logs := logs\<rparr>" for ags r l
    using Cons.IH [of ags r "state\<lparr>activity_logs := l\<rparr>"] by simp
  show ?case unfolding x
    by (simp add: Let_def log_agent_activity_def step split: sum.splits)
qed

lemma process_histories_only_logs:
  "\<exists>logs. snd (process_histories xs results state) = state\<lparr>activity_logs := logs\<rparr>"
proof (induction xs arbitrary: results state)
  case Nil
  have "state = state\<lparr>activity_logs := activity_logs state\<rparr>" by simp
  then show ?case by (metis process_histories.simps(1) snd_conv)
next
  case (Cons x xs)
  obtain i t agent where x: "x = ((i, t), agent)" by (metis prod.collapse)
  have keep: "\<exists>logs. state = state\<lparr>activity_logs := logs\<rparr>"
    by (rule exI [of _ "activity_logs state"]) simp
  have step: "\<exists>logs. snd (process_histories xs rs (state\<lparr>activity_logs := l\<rparr>))
      = state\<lparr>activity_logs := logs\<rparr>" for rs l
    using Cons.IH [of rs "state\<lparr>activity_logs := l\<rparr>"] by simp
  show ?case unfolding x
    by (simp add: log_agent_activity_def step keep split: run_outcome.splits sum.splits)
qed

lemma register_all_browser_manager:
  "unregister_calls (browser_manager (snd (register_all env rt state))) = unregister_calls (browser_manager rt)
   \<and> registry (snd (register_all env rt state)) = registry rt
   \<and> fst ` set (sessions (browser_manager rt)) \<subseteq> fst ` set (sessions (browser_manager (snd (register_all env rt state))))"
  by (auto simp add: register_all_def Let_def)

lemma parallel_agent_id_logs [simp]:
  "parallel_agent_id (state\<lparr>activity_logs := l\<rparr>) i = parallel_agent_id state i"
  by (simp add: parallel_agent_id_def task_id_suffix_def)

lemma cleanup_logs: "cleanup (state\<lparr>activity_logs := l\<rparr>) xs rt = cleanup state xs rt"
proof (induction xs arbitrary: rt)
  case Nil
  then show ?case by simp
next
  case (Cons x xs)
  obtain i t where x: "x = (i, t)" by (metis prod.collapse)
  show ?case unfolding x by (simp add: Let_def Cons.IH)
qed

lemma execute_parallel_runtime:
  assumes "register_all env rt state = (Inr sess, rt1)"
  shows "\<exists>rt2. fst (snd (execute_parallel_browser_tasks env rt state)) =
           cleanup state (enumerate 0 (browser_tasks state)) rt2
         \<and> browser_manager rt2 = browser_manager rt1"
proof -
  let ?tasks = "enumerate 0 (browser_tasks state)"
  obtain agents rt2 state2 where
    cr: "create_agents env (zip ?tasks sess) [] rt1 state = (agents, rt2, state2)"
    by (metis prod.collapse)
  have bm: "browser_manager rt2 = browser_manager rt1"
    using create_agents_browser_manager [of env "zip ?tasks sess" "[]" rt1 state] cr by simp
  obtain l2 where s2: "state2 = state\<lparr>activity_logs := l2\<rparr>"
    using create_agents_only_logs [of env "zip ?tasks sess" "[]" rt1 state] cr by auto
  obtain l3 where s3: "snd (process_histories (zip ?tasks agents) [] state2) = state\<lparr>activity_logs := l3\<rparr>"
    using process_histories_only_logs [of "zip ?tasks agents" "[]" state2] s2 by auto
  have "fst (snd (execute_parallel_browser_tasks env rt state)) =
      cleanup state ?tasks (rt2\<lparr>started := started rt2 @ agents\<rparr>)"
    using assms cr s2 s3 by (simp add: execute_parallel_browser_tasks_def Let_def cleanup_logs)
  then show ?thesis using bm by (intro exI [of _ "rt2\<lparr>started := started rt2 @ agents\<rparr>"]) simp
qed

lemma parallel_cleanup_after_registration:
  assumes "register_all env rt state = (Inr sess, rt1)"
  shows "vibesurf_agent state \<Longrightarrow> i < length (browser_tasks state) \<Longrightarrow>
           parallel_agent_id state i
             \<notin> fst ` set (registry (fst (snd (execute_parallel_browser_tasks env rt state))))"
    and "i < length (browser_tasks state) \<Longrightarrow> \<not> is_list (browser_tasks state ! i) \<Longrightarrow>
           parallel_agent_id state i
             \<notin> fst ` set (sessions (browser_manager (fst (snd (execute_parallel_browser_tasks env rt state)))))"
    and "unregister_calls (browser_manager (fst (snd (execute_parallel_browser_tasks env rt state)))) =
           unregister_calls (browser_manager rt)
             @ map (\<lambda>it. parallel_agent_id state (fst it))
                 (filter (\<lambda>it. \<not> is_list (snd it)) (enumerate 0 (browser_tasks state)))"
proof -
  let ?tasks = "enumerate 0 (browser_tasks state)"
  obtain rt2 where out: "fst (snd (execute_parallel_browser_tasks env rt state)) = cleanup state ?tasks rt2"
    and bm: "browser_manager rt2 = browser_manager rt1"
    using execute_parallel_runtime [OF assms] by blast
  have calls: "unregister_calls (browser_manager rt1) = unregister_calls (browser_manager rt)"
    using register_all_browser_manager [of env rt state] assms by simp
  have mem: "(i, browser_tasks state ! i) \<in> set ?tasks" if "i < length (browser_tasks state)"
    using that by (simp add: in_set_enumerate_eq)
  show "vibesurf_agent state \<Longrightarrow> i < length (browser_tasks state) \<Longrightarrow>
           parallel_agent_id state i
             \<notin> fst ` set (registry (fst (snd (execute_parallel_browser_tasks env rt state))))"
    unfolding out cleanup_registry using mem by force
  show "i < length (browser_tasks state) \<Longrightarrow> \<not> is_list (browser_tasks state ! i) \<Longrightarrow>
           parallel_agent_id state i
             \<notin> fst ` set (sessions (browser_manager (fst (snd (execute_parallel_browser_tasks env rt state)))))"
    unfolding out cleanup_sessions using mem by force
  show "unregister_calls (browser_manager (fst (snd (execute_parallel_browser_tasks env rt state)))) =
           unregister_calls (browser_manager rt)
             @ map (\<lambda>it. parallel_agent_id state (fst it))
                 (filter (\<lambda>it. \<not> is_list (snd it)) ?tasks)"
    unfolding out cleanup_unregister_calls using bm calls by simp
qed

subsection \<open>The results of a parallel dispatch on plain descriptors\<close>

text \<open>
  When every descriptor is a plain string, no files are uploaded and neither a
  registration nor a constructor raises, the dispatcher returns one entry per descriptor, in the order of the
  descriptors, and the i-th entry is the expected one for the i-th descriptor and the
  outcome of its own worker: a worker that raises is recorded as failed with the text
  of its exception, and the other workers keep their own entries.
\<close>

lemma create_agents_acts:
  assumes "upload_files state = []"
    and "\<forall>tid. \<exists>b. BrowserUseAgent_init env tid = Inr b"
  shows "map (\<lambda>a. Inr (acts a)) (fst (create_agents env xs agents rt state)) =
         map (\<lambda>a. Inr (acts a)) agents
           @ map (\<lambda>x. BrowserUseAgent_init env (task_id state @ ''-'' @ str_nat (fst (fst x) + 1))) xs"
  using assms(1)
proof (induction xs arbitrary: agents rt state)
  case Nil
  then show ?case by simp
next
  case (Cons x xs)
  obtain i t sess where x: "x = ((i, t), sess)" by (metis prod.collapse)
  let ?s = "log_agent_activity state (parallel_agent_name state i) ''working'' (task_description t)"
  have up: "upload_files ?s = []" using Cons.prems by simp
  obtain b where b: "BrowserUseAgent_init env (task_id state @ ''-'' @ str_nat (i + 1)) = Inr b"
    using assms(2) by blast
  have "new_parallel_agent env ?s i t sess =
      Inr \<lparr>bu_task = task_description t, browser_session = sess,
           bu_task_id = task_id state @ ''-'' @ str_nat (i + 1), acts = b\<rparr>"
    using new_parallel_agent_plain [OF up, of env i t sess] b by simp
  then show ?case unfolding x using b Cons.IH [OF up] by (simp add: Let_def)
qed

lemma process_histories_plain:
  assumes "\<forall>x \<in> set xs. (\<exists>d. snd (fst x) = TaskStr d) \<and> on_run (acts (snd x)) \<noteq> RunRaises CancelledError"
  shows "fst (process_histories xs results state) =
         Inr (results @ map (\<lambda>x. expected_entry (fst (fst x)) (snd (fst x)) (on_run (acts (snd x)))) xs)"
  using assms
proof (induction xs arbitrary: results state)
  case Nil
  then show ?case by simp
next
  case (Cons x xs)
  obtain i t agent where x: "x = ((i, t), agent)" by (metis prod.collapse)
  obtain d where d: "t = TaskStr d" using Cons.prems x by auto
  have nc: "on_run (acts agent) \<noteq> RunRaises CancelledError" using Cons.prems x by auto
  have rest: "\<forall>y \<in> set xs. (\<exists>d. snd (fst y) = TaskStr d) \<and> on_run (acts (snd y)) \<noteq> RunRaises CancelledError"
    using Cons.prems by simp
  show ?case
  proof (cases "on_run (acts agent)")
    case (RunRaises e)
    then obtain msg where e: "e = Exception msg" using nc by (cases e) simp_all
    show ?thesis unfolding x using RunRaises e d Cons.IH [OF rest]
      by (simp add: expected_entry_def)
  next
    case (RunReturns h)
    show ?thesis unfolding x using RunReturns d Cons.IH [OF rest]
      by (simp add: expected_entry_def)
  qed
qed

lemma parallel_results_in_order:
  assumes plain: "\<forall>t \<in> set (browser_tasks state). \<exists>d. t = TaskStr d"
    and reg: "\<forall>aid target. register_agent env aid target = None"
    and ctor: "\<forall>tid. \<exists>b. BrowserUseAgent_init env tid = Inr b \<and> on_run b \<noteq> RunRaises CancelledError"
    and nc: "\<not> cancelled env"
    and up: "upload_files state = []"
  shows "\<exists>results. fst (execute_parallel_browser_tasks env rt state) = Inr results
      \<and> length results = length (browser_tasks state)
      \<and> (\<forall>i < length (browser_tasks state). \<forall>b.
            BrowserUseAgent_init env (task_id state @ ''-'' @ str_nat (i + 1)) = Inr b \<longrightarrow>
            results ! i = expected_entry i (browser_tasks state ! i) (on_run b))"
proof -
  let ?n = "length (browser_tasks state)"
  let ?tasks = "enumerate 0 (browser_tasks state)"
  let ?sess = "map (\<lambda>it. AgentSession (parallel_agent_id state (fst it))) ?tasks"
  let ?init = "\<lambda>x. BrowserUseAgent_init env (task_id state @ ''-'' @ str_nat (fst (fst x) + 1))"
  let ?entry = "\<lambda>x. expected_entry (fst (fst x)) (snd (fst x)) (on_run (acts (snd x)))"
  have ctor': "\<forall>tid. \<exists>b. BrowserUseAgent_init env tid = Inr b" using ctor by blast
  obtain sess rt1 where r: "register_all env rt state = (Inr sess, rt1)"
    using register_all_never_fails [OF reg] by blast
  have sess: "sess = ?sess" using register_all_sessions(1) [OF r] .
  obtain agents rt2 state2 where
    cr: "create_agents env (zip ?tasks sess) [] rt1 state = (agents, rt2, state2)"
    by (metis prod.collapse)
  have acts: "map (\<lambda>a. Inr (acts a)) agents = map ?init (zip ?tasks sess)"
    using create_agents_acts [OF up ctor', of "zip ?tasks sess" "[]" rt1] cr by simp
  have len: "length agents = ?n"
    using arg_cong [OF acts, of length] sess by simp
  have nth_acts: "Inr (acts (agents ! i)) = BrowserUseAgent_init env (task_id state @ ''-'' @ str_nat (i + 1))"
    if "i < ?n" for i
  proof -
    have "map (\<lambda>a. Inr (acts a)) agents ! i = map ?init (zip ?tasks sess) ! i"
      using acts by simp
    then show ?thesis using that len sess by (simp add: nth_enumerate_eq)
  qed
  have ok: "\<forall>x \<in> set (zip ?tasks agents).
      (\<exists>d. snd (fst x) = TaskStr d) \<and> on_run (acts (snd x)) \<noteq> RunRaises CancelledError"
  proof
    fix x
    assume x: "x \<in> set (zip ?tasks agents)"
    then obtain k where k: "k < ?n" and xk: "x = (?tasks ! k, agents ! k)"
      using len by (auto simp add: in_set_zip)
    have t: "snd (fst x) = browser_tasks state ! k" using xk k by (simp add: nth_enumerate_eq)
    obtain b where b: "BrowserUseAgent_init env (task_id state @ ''-'' @ str_nat (k + 1)) = Inr b"
      and nb: "on_run b \<noteq> RunRaises CancelledError"
      using ctor by blast
    have "acts (agents ! k) = b" using nth_acts [OF k] b by simp
    then show "(\<exists>d. snd (fst x) = TaskStr d) \<and> on_run (acts (snd x)) \<noteq> RunRaises CancelledError"
      using t plain k nb xk by simp
  qed
  have res: "fst (execute_parallel_browser_tasks env rt state) = Inr (map ?entry (zip ?tasks agents))"
    using r cr nc process_histories_plain [OF ok, of "[]" state2]
    by (simp add: execute_parallel_browser_tasks_def Let_def)
  have entry: "map ?entry (zip ?tasks agents) ! i = expected_entry i (browser_tasks state ! i) (on_run b)"
    if "i < ?n" and "BrowserUseAgent_init env (task_id state @ ''-'' @ str_nat (i + 1)) = Inr b" for i b
  proof -
    have "acts (agents ! i) = b" using nth_acts [OF that(1)] that(2) by simp
    then show ?thesis using that(1) len by (simp add: nth_enumerate_eq)
  qed
  show ?thesis using res len entry by simp
qed

subsection \<open>Dispatch when files are uploaded\<close>

text \<open>
  With uploaded files the task text of every worker is built through the undefined
  \<^verbatim>\<open>format_upload_files_list\<close>. On both paths the \<^verbatim>\<open>NameError\<close> is caught before the
  worker is constructed, so that a dispatch with uploaded files starts no worker at all,
  whatever the descriptors and the collaborators are: the single path records a failed
  result for the task, the parallel path logs and skips it.
\<close>

lemma new_single_agent_uploads:
  "upload_files state \<noteq> [] \<Longrightarrow> new_single_agent env state i t = Inl name_error"
  by (simp add: new_single_agent_def single_bu_task_def)

lemma new_parallel_agent_uploads:
  "upload_files state \<noteq> [] \<Longrightarrow> new_parallel_agent env state i t sess = Inl name_error"
  by (simp add: new_parallel_agent_def parallel_bu_task_def)

lemma single_step_upload_files:
  "upload_files (snd (snd (single_step env i t results rt state))) = upload_files state"
  by (simp add: single_step_def single_failed_def Let_def
      split: sum.splits run_outcome.splits)

lemma single_step_uploads:
  assumes "upload_files state \<noteq> []"
  shows "started (fst (snd (single_step env i t results rt state))) = started rt"
proof -
  let ?s = "log_agent_activity state (single_agent_name state) ''working'' (task_description t)"
  have "upload_files ?s \<noteq> []" using assms by simp
  then have "new_single_agent env ?s i t = Inl name_error" by (rule new_single_agent_uploads)
  then show ?thesis using single_step_started_cases [of env i t results rt state] by simp
qed

lemma single_step_uploads_result:
  assumes "upload_files state \<noteq> []"
  shows "fst (single_step env i t results rt state) =
         (case mk_BrowserTaskResult (single_agent_id state i) t False None (Some name_error) of
            Inl v \<Rightarrow> Inl v
          | Inr r \<Rightarrow> Inr (results @ [r]))"
proof -
  let ?s = "log_agent_activity state (single_agent_name state) ''working'' (task_description t)"
  have "upload_files ?s \<noteq> []" using assms by simp
  then have "new_single_agent env ?s i t = Inl name_error" by (rule new_single_agent_uploads)
  then show ?thesis
    by (simp add: single_step_def single_failed_def Let_def split: sum.splits)
qed

lemma execute_single_loop_uploads:
  assumes "upload_files state \<noteq> []"
  shows "started (fst (snd (execute_single_loop env xs results rt state))) = started rt"
  using assms
proof (induction xs arbitrary: results rt state)
  case Nil
  then show ?case by simp
next
  case (Cons x xs)
  obtain i t where x: "x = (i, t)" by (metis prod.collapse)
  obtain r rt1 s1 where st: "single_step env i t results rt state = (r, rt1, s1)"
    by (metis prod.collapse)
  have same: "started rt1 = started rt"
    using single_step_uploads [OF Cons.prems, of env i t results rt] st by simp
  have up: "upload_files s1 \<noteq> []"
    using single_step_upload_files [of env i t results rt state] st Cons.prems by simp
  show ?case
  proof (cases "focus_task env t")
    case (Some e)
    then show ?thesis unfolding x by simp
  next
    case None
    show ?thesis
    proof (cases r)
      case (Inl e)
      then show ?thesis unfolding x using None st same by simp
    next
      case (Inr res)
      have eq: "execute_single_loop env (x # xs) results rt state = execute_single_loop env xs res rt1 s1"
        unfolding x using None st Inr by simp
      show ?thesis unfolding eq using Cons.IH [OF up, of res rt1] same by simp
    qed
  qed
qed

lemma create_agents_uploads:
  assumes "upload_files state \<noteq> []"
  shows "fst (create_agents env xs agents rt state) = agents"
  using assms
proof (induction xs arbitrary: agents rt state)
  case Nil
  then show ?case by simp
next
  case (Cons x xs)
  obtain i t sess where x: "x = ((i, t), sess)" by (metis prod.collapse)
  let ?s = "log_agent_activity state (parallel_agent_name state i) ''working'' (task_description t)"
  let ?s' = "log_agent_activity ?s (parallel_agent_name ?s i) ''error''
               (''Failed to create agent: '' @ name_error)"
  have up: "upload_files ?s \<noteq> []" using Cons.prems by simp
  have up': "upload_files ?s' \<noteq> []" using Cons.prems by simp
  have new: "new_parallel_agent env ?s i t sess = Inl name_error"
    using up by (rule new_parallel_agent_uploads)
  have step: "create_agents env (((i, t), sess) # xs) agents rt state =
      create_agents env xs agents rt ?s'"
    using new by (simp add: Let_def)
  show ?case unfolding x step using Cons.IH [OF up'] .
qed

lemma dispatch_with_uploaded_files:
  assumes "upload_files state \<noteq> []"
  shows "started (fst (snd (execute_tab_based_browser_tasks env rt state))) = started rt"
proof (cases "length (browser_tasks state) \<le> 1")
  case True
  then show ?thesis
    using execute_single_loop_uploads [OF assms]
    by (simp add: execute_tab_based_browser_tasks_def execute_single_browser_tasks_def)
next
  case False
  obtain r rt1 where reg: "register_all env rt state = (r, rt1)" by (metis prod.collapse)
  have "started (fst (snd (execute_parallel_browser_tasks env rt state))) = started rt"
  proof (cases r)
    case (Inl e)
    then show ?thesis using reg execute_parallel_started_failed [of env rt state e rt1] by simp
  next
    case (Inr sess)
    then show ?thesis
      using reg execute_parallel_started_ok [of env rt state sess rt1]
        create_agents_uploads [OF assms]
      by simp
  qed
  then show ?thesis using False by (simp add: execute_tab_based_browser_tasks_def)
qed

lemma dispatch_with_uploaded_files_example:
  "started (fst (snd (execute_tab_based_browser_tasks quiet_env empty_runtime
      ((initial_state ''t'' [''f.txt''] ''sid'' ''0001'')
         \<lparr>browser_tasks := [TaskStr ''a'', TaskStr ''b'']\<rparr>)))) = []
   \<and> map error (case fst (execute_tab_based_browser_tasks quiet_env empty_runtime
      ((initial_state ''t'' [''f.txt''] ''sid'' ''0001'')
         \<lparr>browser_tasks := [TaskStr ''a'']\<rparr>)) of Inl e \<Rightarrow> [] | Inr rs \<Rightarrow> rs)
     = [Some name_error]
   \<and> started (fst (snd (execute_tab_based_browser_tasks quiet_env empty_runtime
      ((initial_state ''t'' [''f.txt''] ''sid'' ''0001'')
         \<lparr>browser_tasks := [TaskStr ''a'']\<rparr>)))) = []"
  by code_simp

end
